theory Spec2Isabelle
  imports Main "HOL-Library.Sublist"
begin

section \<open>The fetch-verify-extract pipeline of \<^verbatim>\<open>pkg/maxmind/download.go\<close>\<close>

text \<open>
  The Go code talks to three things outside itself: the local file system, the HTTP
  transport of the client, and the archive library that walks the entries of the
  downloaded bundle. The embedding makes them explicit.

  \<^item> A \<open>world\<close> is the mutable part: the contents of the files, the modification times
    set through \<^verbatim>\<open>os.Chtimes\<close>, and three records of what has been done so far: the
    paths \<^verbatim>\<open>os.Create\<close> has opened for writing, the HTTP requests sent and the log lines
    written. Every function of the source becomes a function from a world to a result
    and a new world.
  \<^item> A \<open>platform\<close> is the fixed part: the digest function, \<^verbatim>\<open>path.Join\<close>, the answer of
    the remote service to each request, the entries the archive library finds in a
    bundle, and, for every fallible system call of the source, which paths it fails on.
  \<^item> A Go \<^verbatim>\<open>error\<close> is a value of the datatype \<open>error\<close>; a function of type
    \<^verbatim>\<open>(T, error)\<close> returns \<open>error + T\<close>, one of type \<^verbatim>\<open>error\<close> returns \<open>error option\<close>.
\<close>

subsection \<open>Errors and their messages\<close>

type_synonym path = string
type_synonym bytes = string

text \<open>
  \<open>Errorf\<close> and \<open>Wrap\<close> are the two constructors of \<^verbatim>\<open>github.com/pkg/errors\<close> the source
  uses; \<open>External\<close> is an error handed up by the operating system, the transport or the
  archive library; \<open>Walking\<close> is the archive library's wrapper around an error returned
  by the walk callback.
\<close>

datatype error =
    Errorf string
  | Wrap error string
  | External string
  | Walking string error

fun message :: "error \<Rightarrow> string" where
  "message (Errorf s) = s"
| "message (Wrap e s) = s @ '': '' @ message e"
| "message (External s) = s"
| "message (Walking n e) = ''walking '' @ n @ '': '' @ message e"

text \<open>The verb \<^verbatim>\<open>%d\<close> of \<^verbatim>\<open>fmt\<close>: an integer in decimal.\<close>

fun digits :: "nat \<Rightarrow> string" where
  "digits n =
     (if n < 10 then [''0123456789'' ! n]
      else digits (n div 10) @ [''0123456789'' ! (n mod 10)])"

definition fmt_d :: "int \<Rightarrow> string" where
  "fmt_d i = (if i < 0 then ''-'' @ digits (nat (- i)) else digits (nat i))"

text \<open>
  \<^verbatim>\<open>filepath.Ext\<close>: the suffix that starts at the last dot of the last path element, empty
  when that element has no dot. The Go loop scans from the end of the string; \<open>ext_scan\<close>
  runs over the reversed string and collects what it has passed.
\<close>

fun ext_scan :: "string \<Rightarrow> string \<Rightarrow> string" where
  "ext_scan [] acc = []"
| "ext_scan (c # cs) acc =
     (if c = CHR ''/'' then []
      else if c = CHR ''.'' then c # acc
      else ext_scan cs (c # acc))"

definition Ext :: "string \<Rightarrow> string" where
  "Ext p = ext_scan (rev p) []"

text \<open>
  \<^verbatim>\<open>filepath.Base\<close>: the last element of the path, after trailing slashes are removed;
  \<^verbatim>\<open>.\<close> for the empty path and \<^verbatim>\<open>/\<close> for a path of slashes only.
\<close>

definition Base :: "string \<Rightarrow> string" where
  "Base p =
     (if p = [] then ''.''
      else
        (let q = dropWhile (\<lambda>c. c = CHR ''/'') (rev p);
             r = rev (takeWhile (\<lambda>c. c \<noteq> CHR ''/'') q)
         in if r = [] then ''/'' else r))"

subsection \<open>Data\<close>

text \<open>
  \<^verbatim>\<open>EditionID\<close> is declared elsewhere in the package; the source only calls its methods
  \<^verbatim>\<open>String()\<close>, \<^verbatim>\<open>Filename()\<close> and \<^verbatim>\<open>Suffix().String()\<close>, which are the three fields.
\<close>

record edition =
  ed_String :: string
  ed_Filename :: string
  ed_Suffix :: string

text \<open>The \<^verbatim>\<open>Downloader\<close> with the fields of the embedded \<^verbatim>\<open>*Client\<close> it reads.\<close>

record downloader =
  baseURL :: string
  licenseKey :: string
  userAgent :: string
  workDir :: string
  eid :: edition
  dlDir :: string

text \<open>
  A request: the URL, the query parameters in the order they are added, and the
  \<^verbatim>\<open>User-Agent\<close> header when one is set.
\<close>

record request =
  req_url :: string
  req_query :: "(string \<times> string) list"
  req_user_agent :: "string option"

text \<open>
  A response: the status code, the bytes the body delivers, the error that ends the body
  when reading it fails, and \<open>body_fmt\<close>, what \<^verbatim>\<open>fmt\<close> prints for the body \<^emph>\<open>reader\<close> under
  \<^verbatim>\<open>%s\<close>. The source passes \<^verbatim>\<open>res.Body\<close>, an \<^verbatim>\<open>io.ReadCloser\<close>, to \<^verbatim>\<open>Errorf\<close> without
  reading it; \<^verbatim>\<open>fmt\<close> then prints the reader value, which depends on the reader type the
  transport uses. It is a field of its own, and every statement about it holds for any
  value of the field.
\<close>

record response =
  StatusCode :: int
  body :: bytes
  body_err :: "error option"
  body_fmt :: string

text \<open>
  An entry of the archive as the walk callback sees it (\<^verbatim>\<open>archiver.File\<close>): the name in
  the archive's header, which is a path inside the archive; the methods of \<^verbatim>\<open>os.FileInfo\<close>
  the source calls, \<open>Name\<close> being the base name of the entry; the bytes its reader
  delivers, and the error that reading it ends in, if any.
\<close>

record entry =
  header_name :: string
  Name :: string
  IsDir :: bool
  Size :: int
  ModTime :: int
  data :: bytes
  data_err :: "error option"

datatype level = Debug | Info | Warn

text \<open>
  A log line: level, message and the error attached with \<^verbatim>\<open>.Err\<close>, if any. The other
  fields the source attaches to a line (edition, name, size, time and digest of the
  database) are left out.
\<close>

datatype log_line = Log level string "error option"

record world =
  fs :: "path \<rightharpoonup> bytes"
  mtimes :: "path \<rightharpoonup> int"
  created :: "path list"
  http_log :: "request list"
  logged :: "log_line list"

text \<open>
  The platform. \<open>md5sum\<close> is the digest the checksum helpers of the package compute, as
  a string; \<open>path_Join\<close> is \<^verbatim>\<open>path.Join\<close>; \<open>NewRequest_err\<close> says for which URLs
  \<^verbatim>\<open>http.NewRequest\<close> fails; \<open>http_Do\<close> is the transport, with the remote service behind it.
  \<open>walk_entries\<close> gives, for the archive at a path with given bytes, the entries the
  archive library hands to the callback, in walk order, and the error the walk ends in
  when the bundle is damaged. The five \<open>_err\<close> fields say on which paths \<^verbatim>\<open>os.Stat\<close> (for
  a reason other than absence), reading, \<^verbatim>\<open>os.Create\<close>, writing and \<^verbatim>\<open>os.Chtimes\<close> fail.
\<close>

record platform =
  md5sum :: "bytes \<Rightarrow> string"
  path_Join :: "string \<Rightarrow> string \<Rightarrow> string"
  NewRequest_err :: "string \<Rightarrow> error option"
  http_Do :: "request \<Rightarrow> error + response"
  walk_entries :: "path \<Rightarrow> bytes \<Rightarrow> entry list \<times> error option"
  stat_err :: "path \<Rightarrow> error option"
  read_err :: "path \<Rightarrow> error option"
  create_err :: "path \<Rightarrow> error option"
  write_err :: "path \<Rightarrow> error option"
  chtimes_err :: "path \<Rightarrow> error option"

subsection \<open>System calls\<close>

definition say :: "level \<Rightarrow> string \<Rightarrow> error option \<Rightarrow> world \<Rightarrow> world" where
  "say l m e w = w\<lparr>logged := logged w @ [Log l m e]\<rparr>"

text \<open>\<^verbatim>\<open>_, err := os.Stat(p); err == nil\<close>\<close>

definition stat_ok :: "platform \<Rightarrow> world \<Rightarrow> path \<Rightarrow> bool" where
  "stat_ok P w p = (fs w p \<noteq> None \<and> stat_err P p = None)"

text \<open>
  \<^verbatim>\<open>os.Create\<close>: the file exists and is empty afterwards, and the path is added to the
  record of the files opened for writing.
\<close>

definition os_Create :: "platform \<Rightarrow> path \<Rightarrow> world \<Rightarrow> error option \<times> world" where
  "os_Create P p w =
     (case create_err P p of
        Some e \<Rightarrow> (Some e, w)
      | None \<Rightarrow> (None, w\<lparr>fs := (fs w)(p \<mapsto> []), created := created w @ [p]\<rparr>))"

text \<open>
  \<^verbatim>\<open>io.Copy\<close> into the file just created at \<open>p\<close>, from a reader that delivers \<open>bs\<close> and then
  ends with \<open>src_err\<close>. A failing write leaves the file as it is.
\<close>

definition io_Copy ::
  "platform \<Rightarrow> path \<Rightarrow> bytes \<Rightarrow> error option \<Rightarrow> world \<Rightarrow> error option \<times> world" where
  "io_Copy P p bs src_err w =
     (case write_err P p of
        Some e \<Rightarrow> (Some e, w)
      | None \<Rightarrow> (src_err, w\<lparr>fs := (fs w)(p \<mapsto> bs)\<rparr>))"

text \<open>\<^verbatim>\<open>os.Chtimes(p, t, t)\<close>\<close>

definition os_Chtimes :: "platform \<Rightarrow> path \<Rightarrow> int \<Rightarrow> world \<Rightarrow> error option \<times> world" where
  "os_Chtimes P p t w =
     (case chtimes_err P p of
        Some e \<Rightarrow> (Some e, w)
      | None \<Rightarrow> (None, w\<lparr>mtimes := (mtimes w)(p \<mapsto> t)\<rparr>))"

subsection \<open>Helpers of the package that \<^verbatim>\<open>download.go\<close> calls\<close>

text \<open>
  Modelled from the spec: \<^verbatim>\<open>checksumFromFile\<close> is defined in another file of the package.
  Spec 4.1 (a): digest-from-file reads the whole file and produces the digest of its
  content; I/O failures are propagated.
\<close>

definition checksumFromFile :: "platform \<Rightarrow> world \<Rightarrow> path \<Rightarrow> error + string" where
  "checksumFromFile P w p =
     (case fs w p of
        None \<Rightarrow> Inl (External (''open '' @ p @ '': no such file or directory''))
      | Some bs \<Rightarrow>
          (case read_err P p of
             Some e \<Rightarrow> Inl e
           | None \<Rightarrow> Inr (md5sum P bs)))"

text \<open>
  Modelled from the spec: \<^verbatim>\<open>checksumFromReader\<close> is defined in another file of the
  package. Spec 4.1 (b): digest-from-stream consumes the stream and yields the digest
  and a replayable reader for the bytes consumed; a read error is never swallowed.
\<close>

definition checksumFromReader :: "platform \<Rightarrow> entry \<Rightarrow> error + (string \<times> bytes)" where
  "checksumFromReader P f =
     (case data_err f of
        Some e \<Rightarrow> Inl e
      | None \<Rightarrow> Inr (md5sum P (data f), data f))"

text \<open>
  Modelled from the spec: \<^verbatim>\<open>fileExists\<close> is defined in another file of the package.
  Spec 4.4 step 3: "if a file already exists at the destination path".
\<close>

definition fileExists :: "world \<Rightarrow> path \<Rightarrow> bool" where
  "fileExists w p = (fs w p \<noteq> None)"

text \<open>
  Modelled from the spec: \<^verbatim>\<open>createFile\<close> is defined in another file of the package.
  Spec 4.3 step 5: the content is persisted into the file, overwriting any prior content.
  It fails when the file cannot be created or cannot be written.
\<close>

definition createFile :: "platform \<Rightarrow> path \<Rightarrow> string \<Rightarrow> world \<Rightarrow> error option \<times> world" where
  "createFile P p s w =
     (case os_Create P p w of
        (Some e, w1) \<Rightarrow> (Some e, w1)
      | (None, w1) \<Rightarrow> io_Copy P p s None w1)"

subsection \<open>The remote metadata fetcher\<close>

definition endpoint :: "downloader \<Rightarrow> string" where
  "endpoint d = baseURL d @ ''/app/geoip_download''"

definition header :: "downloader \<Rightarrow> string option" where
  "header d = (if userAgent d \<noteq> [] then Some (userAgent d) else None)"

definition md5_request :: "downloader \<Rightarrow> request" where
  "md5_request d =
     \<lparr>req_url = endpoint d,
      req_query = [(''license_key'', licenseKey d),
                   (''edition_id'', ed_String (eid d)),
                   (''suffix'', ed_Suffix (eid d) @ ''.md5'')],
      req_user_agent = header d\<rparr>"

definition archive_request :: "downloader \<Rightarrow> request" where
  "archive_request d =
     \<lparr>req_url = endpoint d,
      req_query = [(''license_key'', licenseKey d),
                   (''edition_id'', ed_String (eid d)),
                   (''suffix'', ed_Suffix (eid d))],
      req_user_agent = header d\<rparr>"

text \<open>\<^verbatim>\<open>d.http.Do(req)\<close>: the request is sent, and recorded.\<close>

definition Do :: "platform \<Rightarrow> request \<Rightarrow> world \<Rightarrow> (error + response) \<times> world" where
  "Do P req w = (http_Do P req, w\<lparr>http_log := http_log w @ [req]\<rparr>)"

definition invalid_status :: "response \<Rightarrow> error" where
  "invalid_status res =
     Errorf (''Received invalid status code '' @ fmt_d (StatusCode res) @ '': '' @ body_fmt res)"

definition expectedHash :: "platform \<Rightarrow> downloader \<Rightarrow> world \<Rightarrow> (error + string) \<times> world" where
  "expectedHash P d w =
     (case NewRequest_err P (endpoint d) of
        Some e \<Rightarrow> (Inl (Wrap e ''Request failed''), w)
      | None \<Rightarrow>
          (case Do P (md5_request d) w of
             (Inl e, w1) \<Rightarrow> (Inl e, w1)
           | (Inr res, w1) \<Rightarrow>
               if StatusCode res \<noteq> 200 then (Inl (invalid_status res), w1)
               else
                 (case body_err res of
                    Some e \<Rightarrow> (Inl (Wrap e ''Cannot download MD5 file''), w1)
                  | None \<Rightarrow> (Inr (body res), w1))))"

subsection \<open>The checksum marker\<close>

definition archive_path :: "platform \<Rightarrow> downloader \<Rightarrow> path" where
  "archive_path P d = path_Join P (workDir d) (ed_Filename (eid d))"

definition md5file :: "platform \<Rightarrow> downloader \<Rightarrow> path" where
  "md5file P d = path_Join P (workDir d) (''.'' @ ed_Filename (eid d) @ ''.'' @ ''md5'')"

text \<open>
  \<^verbatim>\<open>currentHash\<close>, lines 114 to 126, reads the marker. No function of the source calls it.
\<close>

definition currentHash :: "platform \<Rightarrow> downloader \<Rightarrow> world \<Rightarrow> error + string" where
  "currentHash P d w =
     (case stat_err P (md5file P d) of
        Some e \<Rightarrow> Inl e
      | None \<Rightarrow>
          (case fs w (md5file P d) of
             None \<Rightarrow> Inr []
           | Some curHash \<Rightarrow>
               (case read_err P (md5file P d) of
                  Some e \<Rightarrow> Inl (Wrap e ''Cannot read current archive hash'')
                | None \<Rightarrow> Inr curHash)))"

subsection \<open>The archive fetcher\<close>

text \<open>
  Lines 143 to 192 of the source: the request for the archive, the write of the body to
  the archive path, and the comparison of the digest of the written file with the
  expected one.
\<close>

definition mismatch :: "string \<Rightarrow> string \<Rightarrow> error" where
  "mismatch curHash expHash =
     Errorf (''MD5 of downloaded archive ('' @ curHash @
             '') does not match expected md5 ('' @ expHash @ '')'')"

definition fetchArchive ::
  "platform \<Rightarrow> downloader \<Rightarrow> string \<Rightarrow> path \<Rightarrow> world \<Rightarrow> error option \<times> world" where
  "fetchArchive P d expHash archive w =
     (let w0 = say Info (''Downloading '' @ Base archive @ '' archive...'') None w in
      case NewRequest_err P (endpoint d) of
        Some e \<Rightarrow> (Some (Wrap e ''Request failed''), w0)
      | None \<Rightarrow>
          (case Do P (archive_request d) w0 of
             (Inl e, w1) \<Rightarrow> (Some e, w1)
           | (Inr res, w1) \<Rightarrow>
               if StatusCode res \<noteq> 200 then (Some (invalid_status res), w1)
               else
                 (case os_Create P archive w1 of
                    (Some e, w2) \<Rightarrow> (Some (Wrap e ''Cannot create archive file''), w2)
                  | (None, w2) \<Rightarrow>
                      (case io_Copy P archive (body res) (body_err res) w2 of
                         (Some e, w3) \<Rightarrow> (Some (Wrap e ''Cannot download archive''), w3)
                       | (None, w3) \<Rightarrow>
                           (case checksumFromFile P w3 archive of
                              Inl e \<Rightarrow> (Some (Wrap e ''Cannot get archive checksum''), w3)
                            | Inr curHash \<Rightarrow>
                                if expHash \<noteq> curHash then (Some (mismatch curHash expHash), w3)
                                else (None, w3))))))"

definition downloadArchive ::
  "platform \<Rightarrow> downloader \<Rightarrow> string \<Rightarrow> path \<Rightarrow> world \<Rightarrow> error option \<times> world" where
  "downloadArchive P d expHash archive w =
     (if stat_ok P w archive then
        (case checksumFromFile P w archive of
           Inl e \<Rightarrow> (Some (Wrap e ''Cannot get archive checksum''), w)
         | Inr curHash \<Rightarrow>
             if expHash = curHash then
               (None, say Debug ''Archive already downloaded and valid. Skipping download'' None w)
             else fetchArchive P d expHash archive w)
      else fetchArchive P d expHash archive w)"

subsection \<open>The archive extractor\<close>

text \<open>
  Lines 230 to 247 of the source: the entry is written to its destination, its
  modification time is set on a best-effort basis, and the entry is appended to the
  result.
\<close>

definition extractDb ::
  "platform \<Rightarrow> entry \<Rightarrow> bytes \<Rightarrow> path \<Rightarrow> entry list \<times> world \<Rightarrow>
   error option \<times> entry list \<times> world" where
  "extractDb P f reader dbpath s =
     (case s of (dbs, w) \<Rightarrow>
        (case os_Create P dbpath (say Debug ''Extracting database'' None w) of
           (Some e, w1) \<Rightarrow>
             (Some (Wrap e (''Cannot create database file '' @ Name f)), dbs, w1)
         | (None, w1) \<Rightarrow>
             (case io_Copy P dbpath reader None w1 of
                (Some e, w2) \<Rightarrow>
                  (Some (Wrap e (''Cannot extract database file '' @ Name f)), dbs, w2)
              | (None, w2) \<Rightarrow>
                  (case os_Chtimes P dbpath (ModTime f) w2 of
                     (Some e, w3) \<Rightarrow>
                       (None, dbs @ [f],
                        say Warn ''Cannot preserve modtime of database file'' (Some e) w3)
                   | (None, w3) \<Rightarrow> (None, dbs @ [f], w3)))))"

text \<open>The callback handed to \<^verbatim>\<open>archiver.Walk\<close>, lines 197 to 248.\<close>

definition walkFn ::
  "platform \<Rightarrow> downloader \<Rightarrow> entry \<Rightarrow> entry list \<times> world \<Rightarrow>
   error option \<times> entry list \<times> world" where
  "walkFn P d f s =
     (case s of (dbs, w) \<Rightarrow>
        if IsDir f then (None, dbs, w)
        else if Ext (Name f) \<noteq> ''.csv'' \<and> Ext (Name f) \<noteq> ''.mmdb'' then (None, dbs, w)
        else
          (case checksumFromReader P f of
             Inl e \<Rightarrow> (Some e, dbs, w)
           | Inr (expHash, reader) \<Rightarrow>
               (let dbpath = path_Join P (dlDir d) (Name f) in
                if fileExists w dbpath then
                  (case checksumFromFile P w dbpath of
                     Inl e \<Rightarrow> (Some e, dbs, w)
                   | Inr curHash \<Rightarrow>
                       if expHash = curHash then
                         (None, dbs, say Debug ''Database is already up to date'' None w)
                       else extractDb P f reader dbpath (dbs, w))
                else extractDb P f reader dbpath (dbs, w))))"

text \<open>
  \<^verbatim>\<open>archiver.Walk\<close> calls the callback on each entry in turn and stops at the first error
  the callback returns, which it wraps with the name of the entry.
\<close>

fun walk :: "platform \<Rightarrow> downloader \<Rightarrow> entry list \<Rightarrow> entry list \<times> world \<Rightarrow>
   error option \<times> entry list \<times> world" where
  "walk P d [] s = (None, s)"
| "walk P d (f # rest) s =
     (case walkFn P d f s of
        (Some e, s') \<Rightarrow> (Some (Walking (header_name f) e), s')
      | (None, s') \<Rightarrow> walk P d rest s')"

text \<open>
  \<^verbatim>\<open>extractArchive\<close> returns \<^verbatim>\<open>dbs, err\<close>: the list collected so far together with the
  error, if any. The archive library opens the archive (which fails when the file is
  absent or unreadable) and hands its entries to the callback; the entries are those of
  the archive's bytes when the walk starts.
\<close>

definition extractArchive ::
  "platform \<Rightarrow> downloader \<Rightarrow> path \<Rightarrow> world \<Rightarrow> (entry list \<times> error option) \<times> world" where
  "extractArchive P d archive w =
     (case fs w archive of
        None \<Rightarrow> (([], Some (External (''open '' @ archive @ '': no such file or directory''))), w)
      | Some bs \<Rightarrow>
          (case read_err P archive of
             Some e \<Rightarrow> (([], Some e), w)
           | None \<Rightarrow>
               (case walk_entries P archive bs of
                  (entries, damaged) \<Rightarrow>
                    (case walk P d entries ([], w) of
                       (Some e, dbs, w') \<Rightarrow> ((dbs, Some e), w')
                     | (None, dbs, w') \<Rightarrow> ((dbs, damaged), w')))))"

subsection \<open>The pipeline\<close>

definition Download ::
  "platform \<Rightarrow> downloader \<Rightarrow> world \<Rightarrow> (error + entry list) \<times> world" where
  "Download P d w =
     (case expectedHash P d w of
        (Inl e, w1) \<Rightarrow> (Inl (Wrap e ''Cannot get archive MD5 hash''), w1)
      | (Inr expHash, w1) \<Rightarrow>
          (case downloadArchive P d expHash (archive_path P d) w1 of
             (Some e, w2) \<Rightarrow> (Inl e, w2)
           | (None, w2) \<Rightarrow>
               (case createFile P (md5file P d) expHash w2 of
                  (Some e, w3) \<Rightarrow>
                    (Inl (Errorf (''Cannot create MD5 file '' @ md5file P d)), w3)
                | (None, w3) \<Rightarrow>
                    (case extractArchive P d (archive_path P d) w3 of
                       ((dbs, Some e), w4) \<Rightarrow> (Inl e, w4)
                     | ((dbs, None), w4) \<Rightarrow> (Inr dbs, w4)))))"

section \<open>Notions used in the statements\<close>

text \<open>
  The entries the callback does not return on at once: not a directory (line 198) and
  with one of the two extensions (line 201).
\<close>

definition relevant :: "entry \<Rightarrow> bool" where
  "relevant f = (\<not> IsDir f \<and> (Ext (Name f) = ''.csv'' \<or> Ext (Name f) = ''.mmdb''))"

text \<open>The destination of an entry, \<^verbatim>\<open>dbpath\<close> of line 218.\<close>

definition dest :: "platform \<Rightarrow> downloader \<Rightarrow> entry \<Rightarrow> path" where
  "dest P d f = path_Join P (dlDir d) (Name f)"

text \<open>Two worlds with the same files, the same files opened and the same requests sent.\<close>

definition alike :: "world \<Rightarrow> world \<Rightarrow> bool" where
  "alike w v = (fs w = fs v \<and> created w = created v \<and> http_log w = http_log v)"

text \<open>
  An entry is current when its bytes can be read and its destination holds bytes with
  the same digest: the condition under which line 224 holds.
\<close>

definition current :: "platform \<Rightarrow> downloader \<Rightarrow> world \<Rightarrow> entry \<Rightarrow> bool" where
  "current P d w f =
     (data_err f = None \<and>
      (case fs w (dest P d f) of
         None \<Rightarrow> False
       | Some bs \<Rightarrow> md5sum P bs = md5sum P (data f)))"

text \<open>The destinations of the relevant entries of an archive with bytes \<open>bs\<close>, in walk order.\<close>

definition dests :: "platform \<Rightarrow> downloader \<Rightarrow> bytes \<Rightarrow> path list" where
  "dests P d bs =
     map (dest P d) (filter relevant (fst (walk_entries P (archive_path P d) bs)))"

text \<open>
  An entry is pending when it is relevant and not current: the condition under which the
  callback goes on to line 230.
\<close>

definition pending :: "platform \<Rightarrow> downloader \<Rightarrow> world \<Rightarrow> entry \<Rightarrow> bool" where
  "pending P d w f = (relevant f \<and> \<not> current P d w f)"

definition up_to_date :: log_line where
  "up_to_date = Log Debug ''Database is already up to date'' None"

section \<open>Concrete scenarios\<close>

text \<open>
  A small instance of the platform, used to run the definitions at concrete inputs:
  \<^verbatim>\<open>path.Join\<close> on clean paths, the reversal of the bytes as a stand-in for the digest
  (injective, and visibly not the identity), a remote service that answers the checksum
  request with \<^verbatim>\<open>cba\<close> and the archive request with the bytes \<^verbatim>\<open>abc\<close>, an archive of
  four entries, and a file system without faults. The responses of this service have
  status 200, so what \<^verbatim>\<open>fmt\<close> would print for their body reader is never used; \<open>respond\<close>
  puts a placeholder there.
\<close>

definition toy_Join :: "string \<Rightarrow> string \<Rightarrow> string" where
  "toy_Join a b = a @ ''/'' @ b"

definition d0 :: downloader where
  "d0 = \<lparr>baseURL = ''http://h'', licenseKey = ''k'', userAgent = ''ua'', workDir = ''/w'',
          eid = \<lparr>ed_String = ''E'', ed_Filename = ''E.tgz'', ed_Suffix = ''tgz''\<rparr>,
          dlDir = ''/d''\<rparr>"

definition respond :: "int \<Rightarrow> bytes \<Rightarrow> response" where
  "respond code bs =
     \<lparr>StatusCode = code, body = bs, body_err = None, body_fmt = ''(reader)''\<rparr>"

definition toy_server :: "bytes \<Rightarrow> bytes \<Rightarrow> request \<Rightarrow> error + response" where
  "toy_server hsh bs r =
     (if (''suffix'', ''tgz.md5'') \<in> set (req_query r) then Inr (respond 200 hsh)
      else Inr (respond 200 bs))"

definition e_csv :: entry where
  "e_csv = \<lparr>header_name = ''x/a.csv'', Name = ''a.csv'', IsDir = False, Size = 2, ModTime = 7,
            data = ''xy'', data_err = None\<rparr>"

definition e_txt :: entry where
  "e_txt = \<lparr>header_name = ''x/b.txt'', Name = ''b.txt'', IsDir = False, Size = 1, ModTime = 8,
            data = ''t'', data_err = None\<rparr>"

definition e_dir :: entry where
  "e_dir = \<lparr>header_name = ''x/c'', Name = ''c'', IsDir = True, Size = 0, ModTime = 9,
            data = [], data_err = None\<rparr>"

definition e_mmdb :: entry where
  "e_mmdb = \<lparr>header_name = ''x/d.mmdb'', Name = ''d.mmdb'', IsDir = False, Size = 3, ModTime = 10,
             data = ''pqr'', data_err = None\<rparr>"

definition toy_entries :: "path \<Rightarrow> bytes \<Rightarrow> entry list \<times> error option" where
  "toy_entries p bs =
     (if bs = ''abc'' then ([e_csv, e_txt, e_dir, e_mmdb], None)
      else ([], Some (External ''unexpected EOF'')))"

definition P0 :: platform where
  "P0 = \<lparr>md5sum = rev, path_Join = toy_Join, NewRequest_err = (\<lambda>_. None),
          http_Do = toy_server ''cba'' ''abc'', walk_entries = toy_entries,
          stat_err = (\<lambda>_. None), read_err = (\<lambda>_. None), create_err = (\<lambda>_. None),
          write_err = (\<lambda>_. None), chtimes_err = (\<lambda>_. None)\<rparr>"

definition files :: "(path \<times> bytes) list \<Rightarrow> world" where
  "files kvs =
     \<lparr>fs = map_of kvs, mtimes = Map.empty, created = [], http_log = [], logged = []\<rparr>"

text \<open>A remote service whose archive does not have the checksum it announces.\<close>

definition P1 :: platform where
  "P1 = P0\<lparr>http_Do := toy_server ''deadbeef'' ''ecafdeef''\<rparr>"

text \<open>
  A remote service that refuses requests. The status code, the bytes of the body and
  what \<^verbatim>\<open>fmt\<close> prints for the body reader are parameters: \<open>refusing\<close> answers every request
  that way, \<open>refusing_archive\<close> answers the checksum request with \<^verbatim>\<open>cba\<close> and refuses the
  archive request.
\<close>

definition refused :: "int \<Rightarrow> bytes \<Rightarrow> string \<Rightarrow> response" where
  "refused code bs rendering =
     \<lparr>StatusCode = code, body = bs, body_err = None, body_fmt = rendering\<rparr>"

definition refusing :: "int \<Rightarrow> bytes \<Rightarrow> string \<Rightarrow> platform" where
  "refusing code bs rendering = P0\<lparr>http_Do := (\<lambda>r. Inr (refused code bs rendering))\<rparr>"

definition refusing_archive :: "int \<Rightarrow> bytes \<Rightarrow> string \<Rightarrow> platform" where
  "refusing_archive code bs rendering = P0\<lparr>http_Do := (\<lambda>r.
       if (''suffix'', ''tgz.md5'') \<in> set (req_query r) then Inr (respond 200 ''cba'')
       else Inr (refused code bs rendering))\<rparr>"

text \<open>A file system on which the checksum marker cannot be created.\<close>

definition P_ro :: platform where
  "P_ro = P0\<lparr>create_err := (\<lambda>p.
       if p = ''/w/.E.tgz.md5'' then Some (External ''permission denied'') else None)\<rparr>"

text \<open>A working directory with a current archive and a stale checksum marker.\<close>

definition w_old :: world where
  "w_old = files [(''/w/E.tgz'', ''abc''), (''/w/.E.tgz.md5'', ''old'')]"

text \<open>
  A working directory with the archive only, and one where the download directory
  already holds the first payload entry with its current content.
\<close>

definition w_arch :: world where
  "w_arch = files [(''/w/E.tgz'', ''abc'')]"

definition w_cur :: world where
  "w_cur = files [(''/w/E.tgz'', ''abc''), (''/d/a.csv'', ''xy'')]"

text \<open>A working directory whose marker has the expected checksum and whose archive has not.\<close>

definition w_stale :: world where
  "w_stale = files [(''/w/E.tgz'', ''old''), (''/w/.E.tgz.md5'', ''cba'')]"

text \<open>A file system on which no modification time can be set.\<close>

definition P_noch :: platform where
  "P_noch = P0\<lparr>chtimes_err := (\<lambda>p. Some (External ''operation not permitted''))\<rparr>"

text \<open>
  An archive with two payload entries of the same base name (as \<^verbatim>\<open>x/a.csv\<close> and
  \<^verbatim>\<open>y/a.csv\<close> in a tar file: \<^verbatim>\<open>f.Name()\<close> is the base name) and different contents.
\<close>

definition e_dup :: entry where
  "e_dup = \<lparr>header_name = ''y/a.csv'', Name = ''a.csv'', IsDir = False, Size = 2, ModTime = 11,
            data = ''zz'', data_err = None\<rparr>"

definition P_dup :: platform where
  "P_dup = P0\<lparr>walk_entries := (\<lambda>p bs. ([e_csv, e_dup], None))\<rparr>"

section \<open>Properties\<close>

lemmas scen = P0_def d0_def files_def toy_Join_def toy_server_def respond_def
  archive_path_def md5file_def endpoint_def header_def md5_request_def archive_request_def
  toy_entries_def e_csv_def e_txt_def e_dir_def e_mmdb_def

lemmas run = extractArchive_def walkFn_def extractDb_def checksumFromReader_def
  checksumFromFile_def fileExists_def os_Create_def io_Copy_def os_Chtimes_def
  say_def Ext_def Let_def

lemmas pipeline = Download_def expectedHash_def downloadArchive_def fetchArchive_def
  createFile_def stat_ok_def Do_def

subsection \<open>Skip on match\<close>

text \<open>
  Claim C4. When the fetch step finds a file at the archive path (\<^verbatim>\<open>os.Stat\<close> succeeds) and
  the digest computed from it equals the expected checksum, \<open>downloadArchive\<close> returns no
  error, sends no HTTP request, opens no file for writing and leaves every file, the
  archive included, as it was.
\<close>

theorem skip_on_match:
  assumes "stat_ok P w archive"
    and "checksumFromFile P w archive = Inr expHash"
  shows "fst (downloadArchive P d expHash archive w) = None \<and>
         http_log (snd (downloadArchive P d expHash archive w)) = http_log w \<and>
         fs (snd (downloadArchive P d expHash archive w)) = fs w \<and>
         created (snd (downloadArchive P d expHash archive w)) = created w"
  using assms by (simp add: downloadArchive_def say_def)

theorem skip_on_match_witness:
  "stat_ok P0 (files [(''/w/E.tgz'', ''abc'')]) ''/w/E.tgz'' \<and>
   checksumFromFile P0 (files [(''/w/E.tgz'', ''abc'')]) ''/w/E.tgz'' = Inr ''cba'' \<and>
   fst (downloadArchive P0 d0 ''cba'' ''/w/E.tgz'' (files [(''/w/E.tgz'', ''abc'')])) = None \<and>
   http_log (snd (downloadArchive P0 d0 ''cba'' ''/w/E.tgz'' (files [(''/w/E.tgz'', ''abc'')]))) = [] \<and>
   fs (snd (downloadArchive P0 d0 ''cba'' ''/w/E.tgz'' (files [(''/w/E.tgz'', ''abc'')])))
     = fs (files [(''/w/E.tgz'', ''abc'')])"
proof -
  have a: "stat_ok P0 (files [(''/w/E.tgz'', ''abc'')]) ''/w/E.tgz''"
    by (simp add: stat_ok_def P0_def files_def)
  have b: "checksumFromFile P0 (files [(''/w/E.tgz'', ''abc'')]) ''/w/E.tgz'' = Inr ''cba''"
    by (simp add: checksumFromFile_def P0_def files_def)
  have c: "http_log (files [(''/w/E.tgz'', ''abc'')]) = []"
    by (simp add: files_def)
  show ?thesis
    using skip_on_match [OF a b, of d0] a b c by simp
qed

subsection \<open>What each step touches\<close>

lemma createFile_frame:
  "createFile P p s w = (r, w') \<Longrightarrow>
     (\<forall>q. q \<noteq> p \<longrightarrow> fs w' q = fs w q) \<and> mtimes w' = mtimes w \<and>
     http_log w' = http_log w \<and> logged w' = logged w \<and>
     (created w' = created w \<or> created w' = created w @ [p])"
  by (auto simp: createFile_def os_Create_def io_Copy_def split: option.splits)

lemma createFile_succeeds:
  "create_err P p = None \<Longrightarrow> write_err P p = None \<Longrightarrow>
   createFile P p s w = (None, w\<lparr>fs := (fs w)(p \<mapsto> s), created := created w @ [p]\<rparr>)"
  by (simp add: createFile_def os_Create_def io_Copy_def)

lemma expectedHash_frame:
  "expectedHash P d w = (r, w') \<Longrightarrow>
     fs w' = fs w \<and> mtimes w' = mtimes w \<and> logged w' = logged w \<and> created w' = created w"
  by (auto simp: expectedHash_def Do_def split: option.splits sum.splits if_splits)

text \<open>A fetch step that returns no error leaves an archive with the expected digest.\<close>

lemma fetchArchive_valid:
  "fetchArchive P d h a w = (None, w') \<Longrightarrow>
     \<exists>bs. fs w' a = Some bs \<and> md5sum P bs = h \<and> read_err P a = None"
  by (auto simp: fetchArchive_def Let_def Do_def os_Create_def io_Copy_def
        checksumFromFile_def say_def
      split: option.splits sum.splits if_splits prod.splits)

lemma downloadArchive_valid:
  "downloadArchive P d h a w = (None, w') \<Longrightarrow>
     \<exists>bs. fs w' a = Some bs \<and> md5sum P bs = h \<and> read_err P a = None"
  by (auto simp: downloadArchive_def say_def checksumFromFile_def stat_ok_def
      dest: fetchArchive_valid split: option.splits sum.splits if_splits)

subsection \<open>The integrity gate\<close>

lemma sublist_mismatch:
  "sublist c (message (mismatch c h)) \<and> sublist h (message (mismatch c h))"
  unfolding mismatch_def message.simps
  by (metis append.assoc sublist_appendI)

lemma fetchArchive_mismatch:
  assumes "NewRequest_err P (endpoint d) = None"
    and "http_Do P (archive_request d) = Inr res"
    and "StatusCode res = 200" and "body_err res = None"
    and "create_err P a = None" and "write_err P a = None" and "read_err P a = None"
    and "md5sum P (body res) \<noteq> h"
  shows "fst (fetchArchive P d h a w) = Some (mismatch (md5sum P (body res)) h) \<and>
         (\<forall>q. q \<noteq> a \<longrightarrow> fs (snd (fetchArchive P d h a w)) q = fs w q) \<and>
         created (snd (fetchArchive P d h a w)) = created w @ [a]"
  using assms
  by (auto simp: fetchArchive_def Let_def Do_def os_Create_def io_Copy_def
        checksumFromFile_def say_def)

text \<open>
  Claim C1. Suppose the checksum request succeeds with \<open>expHash\<close>, the archive on disk is
  not accepted as it is (it is absent, or its digest is another one), the archive
  request is answered with status 200, and the body is written to the archive path and
  read back without an I/O error. If the digest of the written bytes differs from
  \<open>expHash\<close>, then \<open>Download\<close> returns the error built at line 189, whose message contains
  the computed and the expected checksum, so it does not report success; the content of
  the checksum marker is what it was before the call (absent if it was absent), and the
  archive is the only file the call has opened for writing. Marker and archive are
  different files.
\<close>

theorem integrity_gate:
  assumes "expectedHash P d w = (Inr expHash, w1)"
    and "\<not> stat_ok P w1 (archive_path P d) \<or>
         (\<exists>cur. checksumFromFile P w1 (archive_path P d) = Inr cur \<and> cur \<noteq> expHash)"
    and "NewRequest_err P (endpoint d) = None"
    and "http_Do P (archive_request d) = Inr res"
    and "StatusCode res = 200" and "body_err res = None"
    and "create_err P (archive_path P d) = None"
    and "write_err P (archive_path P d) = None"
    and "read_err P (archive_path P d) = None"
    and "md5sum P (body res) \<noteq> expHash"
    and "md5file P d \<noteq> archive_path P d"
  shows "fst (Download P d w) = Inl (mismatch (md5sum P (body res)) expHash) \<and>
         sublist (md5sum P (body res)) (message (mismatch (md5sum P (body res)) expHash)) \<and>
         sublist expHash (message (mismatch (md5sum P (body res)) expHash)) \<and>
         fs (snd (Download P d w)) (md5file P d) = fs w (md5file P d) \<and>
         created (snd (Download P d w)) = created w @ [archive_path P d]"
proof -
  let ?a = "archive_path P d"
  have dl: "downloadArchive P d expHash ?a w1 = fetchArchive P d expHash ?a w1"
    using assms(2) by (auto simp: downloadArchive_def)
  have f: "fst (fetchArchive P d expHash ?a w1) = Some (mismatch (md5sum P (body res)) expHash)"
    and g: "fs (snd (fetchArchive P d expHash ?a w1)) (md5file P d) = fs w1 (md5file P d)"
    and c: "created (snd (fetchArchive P d expHash ?a w1)) = created w1 @ [?a]"
    using fetchArchive_mismatch [OF assms(3-10), of w1] assms(11) by auto
  have w1: "fs w1 = fs w" "created w1 = created w"
    using expectedHash_frame [OF assms(1)] by simp_all
  obtain e w2 where r: "fetchArchive P d expHash ?a w1 = (Some e, w2)"
    using f by (cases "fetchArchive P d expHash ?a w1") auto
  have D: "Download P d w = (Inl e, w2)"
    by (simp add: Download_def assms(1) dl r)
  show ?thesis
    using D r f g c w1 sublist_mismatch by simp
qed

theorem integrity_gate_witness:
  "expectedHash P1 d0 (files []) =
     (Inr ''deadbeef'', (files [])\<lparr>http_log := [md5_request d0]\<rparr>) \<and>
   \<not> stat_ok P1 ((files [])\<lparr>http_log := [md5_request d0]\<rparr>) (archive_path P1 d0) \<and>
   md5sum P1 ''ecafdeef'' = ''feedface'' \<and>
   fst (Download P1 d0 (files [])) =
     Inl (Errorf ''MD5 of downloaded archive (feedface) does not match expected md5 (deadbeef)'') \<and>
   fs (snd (Download P1 d0 (files []))) (md5file P1 d0) = None \<and>
   created (snd (Download P1 d0 (files []))) = [archive_path P1 d0]"
proof -
  let ?w1 = "(files [])\<lparr>http_log := [md5_request d0]\<rparr>"
  have h1: "expectedHash P1 d0 (files []) = (Inr ''deadbeef'', ?w1)"
    by (simp add: expectedHash_def Do_def P1_def scen)
  have h2: "\<not> stat_ok P1 ?w1 (archive_path P1 d0)"
    by (simp add: stat_ok_def P1_def scen)
  have h3: "NewRequest_err P1 (endpoint d0) = None"
    by (simp add: P1_def scen)
  have h4: "http_Do P1 (archive_request d0) = Inr (respond 200 ''ecafdeef'')"
    by (simp add: P1_def scen)
  have h5: "StatusCode (respond 200 ''ecafdeef'') = 200"
    "body_err (respond 200 ''ecafdeef'') = None"
    by (simp_all add: respond_def)
  have h6: "create_err P1 (archive_path P1 d0) = None"
    "write_err P1 (archive_path P1 d0) = None"
    "read_err P1 (archive_path P1 d0) = None"
    by (simp_all add: P1_def scen)
  have h7: "md5sum P1 (body (respond 200 ''ecafdeef'')) \<noteq> ''deadbeef''"
    by (simp add: P1_def scen)
  have h8: "md5file P1 d0 \<noteq> archive_path P1 d0"
    by (simp add: P1_def scen)
  have v: "md5sum P1 (body (respond 200 ''ecafdeef'')) = ''feedface''"
    by (simp add: P1_def scen)
  have e: "fs (files []) (md5file P1 d0) = None"
    by (simp add: files_def)
  have s: "md5sum P1 ''ecafdeef'' = ''feedface''"
    by (simp add: P1_def scen)
  have c: "created (files []) = []"
    by (simp add: files_def)
  show ?thesis
    using integrity_gate [OF h1 disjI1 [OF h2] h3 h4 h5 h6 h7 h8] h1 h2 s
    by (simp add: v e c mismatch_def)
qed

subsection \<open>The checksum marker\<close>

text \<open>
  Claim C8. After a fetch step that returned no error, whether it downloaded the archive
  or skipped the download, \<open>Download\<close> writes the expected checksum to the checksum marker:
  when creating and writing the marker do not fail, the marker holds exactly the
  expected checksum afterwards, whatever it held before, no other file is touched by
  that step, and \<open>Download\<close> goes on to the extraction from there.
\<close>

theorem marker_written:
  assumes "expectedHash P d w = (Inr expHash, w1)"
    and "downloadArchive P d expHash (archive_path P d) w1 = (None, w2)"
    and "create_err P (md5file P d) = None"
    and "write_err P (md5file P d) = None"
  shows "\<exists>w3. createFile P (md5file P d) expHash w2 = (None, w3) \<and>
           fs w3 (md5file P d) = Some expHash \<and>
           (\<forall>p. p \<noteq> md5file P d \<longrightarrow> fs w3 p = fs w2 p) \<and>
           Download P d w =
             (case extractArchive P d (archive_path P d) w3 of
                ((dbs, Some e), w4) \<Rightarrow> (Inl e, w4)
              | ((dbs, None), w4) \<Rightarrow> (Inr dbs, w4))"
  using assms by (simp add: Download_def createFile_succeeds)

theorem marker_written_witness:
  "fs w_old (md5file P0 d0) = Some ''old'' \<and>
   expectedHash P0 d0 w_old = (Inr ''cba'', w_old\<lparr>http_log := [md5_request d0]\<rparr>) \<and>
   fst (downloadArchive P0 d0 ''cba'' (archive_path P0 d0)
          (w_old\<lparr>http_log := [md5_request d0]\<rparr>)) = None \<and>
   http_log (snd (downloadArchive P0 d0 ''cba'' (archive_path P0 d0)
          (w_old\<lparr>http_log := [md5_request d0]\<rparr>))) = [md5_request d0] \<and>
   (\<exists>w3. createFile P0 (md5file P0 d0) ''cba''
            (snd (downloadArchive P0 d0 ''cba'' (archive_path P0 d0)
               (w_old\<lparr>http_log := [md5_request d0]\<rparr>))) = (None, w3) \<and>
         fs w3 (md5file P0 d0) = Some ''cba'')"
proof -
  let ?w1 = "w_old\<lparr>http_log := [md5_request d0]\<rparr>"
  let ?w2 = "snd (downloadArchive P0 d0 ''cba'' (archive_path P0 d0) ?w1)"
  have h0: "fs w_old (md5file P0 d0) = Some ''old''"
    by (simp add: w_old_def scen)
  have h1: "expectedHash P0 d0 w_old = (Inr ''cba'', ?w1)"
    by (simp add: expectedHash_def Do_def w_old_def scen)
  have h2: "downloadArchive P0 d0 ''cba'' (archive_path P0 d0) ?w1 =
      (None, say Debug ''Archive already downloaded and valid. Skipping download'' None ?w1)"
    by (simp add: downloadArchive_def stat_ok_def checksumFromFile_def w_old_def scen)
  have h2': "downloadArchive P0 d0 ''cba'' (archive_path P0 d0) ?w1 = (None, ?w2)"
    by (simp add: h2)
  have h3: "create_err P0 (md5file P0 d0) = None" "write_err P0 (md5file P0 d0) = None"
    by (simp_all add: P0_def)
  from marker_written [OF h1 h2' h3]
  have "\<exists>w3. createFile P0 (md5file P0 d0) ''cba'' ?w2 = (None, w3) \<and>
         fs w3 (md5file P0 d0) = Some ''cba''"
    by blast
  with h0 h1 h2 show ?thesis
    by (simp add: say_def)
qed


text \<open>
  Claim C10. When the fetch step returned no error and writing the checksum marker
  fails, \<open>Download\<close> returns the error of line 68 and stops: no file other than the marker
  differs from what the fetch step left, no file other than the marker is opened for
  writing, no modification time is set, nothing is logged, no descriptors are returned,
  and this although the archive on disk has the expected digest.
\<close>

theorem marker_failure:
  assumes "expectedHash P d w = (Inr expHash, w1)"
    and "downloadArchive P d expHash (archive_path P d) w1 = (None, w2)"
    and "createFile P (md5file P d) expHash w2 = (Some e, w3)"
  shows "Download P d w = (Inl (Errorf (''Cannot create MD5 file '' @ md5file P d)), w3) \<and>
         (\<forall>p. p \<noteq> md5file P d \<longrightarrow> fs w3 p = fs w2 p) \<and>
         mtimes w3 = mtimes w2 \<and> logged w3 = logged w2 \<and> http_log w3 = http_log w2 \<and>
         (created w3 = created w2 \<or> created w3 = created w2 @ [md5file P d]) \<and>
         (\<exists>bs. fs w2 (archive_path P d) = Some bs \<and> md5sum P bs = expHash)"
  using assms createFile_frame [OF assms(3)] downloadArchive_valid [OF assms(2)]
  by (auto simp: Download_def)

theorem marker_failure_witness:
  "expectedHash P_ro d0 (files [(''/w/E.tgz'', ''abc'')]) =
     (Inr ''cba'', (files [(''/w/E.tgz'', ''abc'')])\<lparr>http_log := [md5_request d0]\<rparr>) \<and>
   fst (Download P_ro d0 (files [(''/w/E.tgz'', ''abc'')])) =
     Inl (Errorf ''Cannot create MD5 file /w/.E.tgz.md5'') \<and>
   fs (snd (Download P_ro d0 (files [(''/w/E.tgz'', ''abc'')]))) ''/w/E.tgz'' = Some ''abc'' \<and>
   fs (snd (Download P_ro d0 (files [(''/w/E.tgz'', ''abc'')]))) ''/d/a.csv'' = None \<and>
   fs (snd (Download P_ro d0 (files [(''/w/E.tgz'', ''abc'')]))) ''/d/d.mmdb'' = None"
proof -
  let ?w = "files [(''/w/E.tgz'', ''abc'')]"
  let ?w1 = "?w\<lparr>http_log := [md5_request d0]\<rparr>"
  let ?w2 = "say Debug ''Archive already downloaded and valid. Skipping download'' None ?w1"
  have h1: "expectedHash P_ro d0 ?w = (Inr ''cba'', ?w1)"
    by (simp add: expectedHash_def Do_def P_ro_def scen)
  have h2: "downloadArchive P_ro d0 ''cba'' (archive_path P_ro d0) ?w1 = (None, ?w2)"
    by (simp add: downloadArchive_def stat_ok_def checksumFromFile_def P_ro_def scen)
  have h3: "createFile P_ro (md5file P_ro d0) ''cba'' ?w2 = (Some (External ''permission denied''), ?w2)"
    by (simp add: createFile_def os_Create_def P_ro_def scen)
  have m: "md5file P_ro d0 = ''/w/.E.tgz.md5''"
    by (simp add: P_ro_def scen)
  from marker_failure [OF h1 h2 h3]
  have "Download P_ro d0 ?w = (Inl (Errorf (''Cannot create MD5 file '' @ md5file P_ro d0)), ?w2)"
    by blast
  then show ?thesis
    using h1 by (simp add: m say_def files_def)
qed


subsection \<open>Responses with a status other than 200\<close>

text \<open>
  The error built at lines 103 and 169 formats \<^verbatim>\<open>res.Body\<close>, the reader, and never reads
  it: the bytes of the body do not reach the message.
\<close>

lemma invalid_status_ignores_body:
  "invalid_status (res\<lparr>body := bs\<rparr>) = invalid_status res"
  by (simp add: invalid_status_def)


lemma requests_differ: "archive_request d \<noteq> md5_request d"
  by (simp add: archive_request_def md5_request_def)

text \<open>
  Claim C7, what the code does instead. When \<^verbatim>\<open>http.NewRequest\<close> does not fail and the
  checksum request is answered with a status other than 200, \<open>Download\<close> fails with the
  error of line 103 wrapped at line 56: its message is the status code in decimal
  followed by what \<^verbatim>\<open>fmt\<close> prints for the body reader, and it is the same error whatever
  bytes the body holds. When the checksum request succeeds, the archive on disk is not
  accepted and the archive request is answered with a status other than 200, \<open>Download\<close>
  fails with the error of line 169, again the same whatever bytes the body holds. The
  bytes of the body are never read on either path.
\<close>

theorem status_error_omits_body:
  assumes "NewRequest_err P (endpoint d) = None"
  shows "(http_Do P (md5_request d) = Inr res \<and> StatusCode res \<noteq> 200 \<longrightarrow>
            fst (Download P d w) =
              Inl (Wrap (Errorf (''Received invalid status code '' @ fmt_d (StatusCode res) @
                                 '': '' @ body_fmt res))
                     ''Cannot get archive MD5 hash'') \<and>
            message (Wrap (Errorf (''Received invalid status code '' @ fmt_d (StatusCode res) @
                                 '': '' @ body_fmt res))
                     ''Cannot get archive MD5 hash'') =
              ''Cannot get archive MD5 hash: Received invalid status code '' @
                fmt_d (StatusCode res) @ '': '' @ body_fmt res \<and>
            fst (Download (P\<lparr>http_Do := (http_Do P)(md5_request d := Inr (res\<lparr>body := bs\<rparr>))\<rparr>) d w) =
              fst (Download P d w)) \<and>
         (http_Do P (md5_request d) = Inr ok \<and> StatusCode ok = 200 \<and> body_err ok = None \<and>
          (\<not> stat_ok P w (archive_path P d) \<or>
           (\<exists>cur. checksumFromFile P w (archive_path P d) = Inr cur \<and> cur \<noteq> body ok)) \<and>
          http_Do P (archive_request d) = Inr res \<and> StatusCode res \<noteq> 200 \<longrightarrow>
            fst (Download P d w) =
              Inl (Errorf (''Received invalid status code '' @ fmt_d (StatusCode res) @
                           '': '' @ body_fmt res)) \<and>
            fst (Download (P\<lparr>http_Do := (http_Do P)(archive_request d := Inr (res\<lparr>body := bs\<rparr>))\<rparr>) d w) =
              fst (Download P d w))"
proof (intro conjI impI)
  assume h: "http_Do P (md5_request d) = Inr res \<and> StatusCode res \<noteq> 200"
  let ?Q = "P\<lparr>http_Do := (http_Do P)(md5_request d := Inr (res\<lparr>body := bs\<rparr>))\<rparr>"
  show 1: "fst (Download P d w) =
      Inl (Wrap (Errorf (''Received invalid status code '' @ fmt_d (StatusCode res) @
                         '': '' @ body_fmt res)) ''Cannot get archive MD5 hash'')"
    using assms h by (simp add: Download_def expectedHash_def Do_def invalid_status_def)
  show "message (Wrap (Errorf (''Received invalid status code '' @ fmt_d (StatusCode res) @
                         '': '' @ body_fmt res)) ''Cannot get archive MD5 hash'') =
      ''Cannot get archive MD5 hash: Received invalid status code '' @
        fmt_d (StatusCode res) @ '': '' @ body_fmt res"
    by simp
  have "fst (Download ?Q d w) =
      Inl (Wrap (Errorf (''Received invalid status code '' @ fmt_d (StatusCode res) @
                         '': '' @ body_fmt res)) ''Cannot get archive MD5 hash'')"
    using assms h by (simp add: Download_def expectedHash_def Do_def invalid_status_def)
  with 1 show "fst (Download ?Q d w) = fst (Download P d w)" by simp
next
  assume h: "http_Do P (md5_request d) = Inr ok \<and> StatusCode ok = 200 \<and> body_err ok = None \<and>
          (\<not> stat_ok P w (archive_path P d) \<or>
           (\<exists>cur. checksumFromFile P w (archive_path P d) = Inr cur \<and> cur \<noteq> body ok)) \<and>
          http_Do P (archive_request d) = Inr res \<and> StatusCode res \<noteq> 200"
  let ?Q = "P\<lparr>http_Do := (http_Do P)(archive_request d := Inr (res\<lparr>body := bs\<rparr>))\<rparr>"
  let ?w1 = "w\<lparr>http_log := http_log w @ [md5_request d]\<rparr>"
  let ?E = "Errorf (''Received invalid status code '' @ fmt_d (StatusCode res) @
                           '': '' @ body_fmt res)"
  have st: "stat_ok P ?w1 (archive_path P d) = stat_ok P w (archive_path P d)"
    "checksumFromFile P ?w1 (archive_path P d) = checksumFromFile P w (archive_path P d)"
    by (simp_all add: stat_ok_def checksumFromFile_def split: option.splits)
  have e: "expectedHash P d w = (Inr (body ok), ?w1)"
    using assms h by (simp add: expectedHash_def Do_def)
  have dl: "downloadArchive P d (body ok) (archive_path P d) ?w1 =
      fetchArchive P d (body ok) (archive_path P d) ?w1"
    using h st by (auto simp: downloadArchive_def)
  have f: "fst (fetchArchive P d (body ok) (archive_path P d) ?w1) = Some ?E"
    using assms h by (simp add: fetchArchive_def Do_def invalid_status_def Let_def)
  obtain w2 where r: "fetchArchive P d (body ok) (archive_path P d) ?w1 = (Some ?E, w2)"
    using f by (cases "fetchArchive P d (body ok) (archive_path P d) ?w1") auto
  show 1: "fst (Download P d w) = Inl ?E"
    using e dl r by (simp add: Download_def)
  have q: "archive_path ?Q d = archive_path P d"
    "stat_ok ?Q ?w1 (archive_path P d) = stat_ok P w (archive_path P d)"
    "checksumFromFile ?Q ?w1 (archive_path P d) = checksumFromFile P w (archive_path P d)"
    by (simp_all add: archive_path_def stat_ok_def checksumFromFile_def split: option.splits)
  have e': "expectedHash ?Q d w = (Inr (body ok), ?w1)"
    using assms h requests_differ [of d] by (simp add: expectedHash_def Do_def)
  have dl': "downloadArchive ?Q d (body ok) (archive_path P d) ?w1 =
      fetchArchive ?Q d (body ok) (archive_path P d) ?w1"
    using h q by (auto simp: downloadArchive_def)
  have f': "fst (fetchArchive ?Q d (body ok) (archive_path P d) ?w1) = Some ?E"
    using assms h by (simp add: fetchArchive_def Do_def invalid_status_def Let_def)
  obtain w2' where r': "fetchArchive ?Q d (body ok) (archive_path P d) ?w1 = (Some ?E, w2')"
    using f' by (cases "fetchArchive ?Q d (body ok) (archive_path P d) ?w1") auto
  have "fst (Download ?Q d w) = Inl ?E"
    using e' dl' r' q(1) by (simp add: Download_def)
  with 1 show "fst (Download ?Q d w) = fst (Download P d w)" by simp
qed

theorem status_error_omits_body_witness:
  "\<forall>bs rendering.
     NewRequest_err (refusing 404 bs rendering) (endpoint d0) = None \<and>
     StatusCode (refused 404 bs rendering) \<noteq> 200 \<and>
     fst (Download (refusing 404 bs rendering) d0 (files [])) =
       Inl (Wrap (Errorf (''Received invalid status code 404: '' @ rendering))
              ''Cannot get archive MD5 hash'') \<and>
     \<not> stat_ok (refusing_archive 503 bs rendering) (files [])
         (archive_path (refusing_archive 503 bs rendering) d0) \<and>
     fst (Download (refusing_archive 503 bs rendering) d0 (files [])) =
       Inl (Errorf (''Received invalid status code 503: '' @ rendering))"
proof (intro allI)
  fix bs rendering
  let ?P = "refusing 404 bs rendering"
  let ?Q = "refusing_archive 503 bs rendering"
  let ?r4 = "refused 404 bs rendering"
  let ?r5 = "refused 503 bs rendering"
  have p1: "NewRequest_err ?P (endpoint d0) = None"
    by (simp add: refusing_def P0_def)
  have p2: "http_Do ?P (md5_request d0) = Inr ?r4 \<and> StatusCode ?r4 \<noteq> 200"
    by (simp add: refusing_def refused_def)
  have q1: "NewRequest_err ?Q (endpoint d0) = None"
    by (simp add: refusing_archive_def P0_def)
  have ns: "\<not> stat_ok ?Q (files []) (archive_path ?Q d0)"
    by (simp add: stat_ok_def files_def)
  have q2: "http_Do ?Q (md5_request d0) = Inr (respond 200 ''cba'') \<and>
      StatusCode (respond 200 ''cba'') = 200 \<and> body_err (respond 200 ''cba'') = None \<and>
      (\<not> stat_ok ?Q (files []) (archive_path ?Q d0) \<or>
       (\<exists>cur. checksumFromFile ?Q (files []) (archive_path ?Q d0) = Inr cur \<and>
              cur \<noteq> body (respond 200 ''cba''))) \<and>
      http_Do ?Q (archive_request d0) = Inr ?r5 \<and> StatusCode ?r5 \<noteq> 200"
    using ns by (simp add: refusing_archive_def refused_def respond_def md5_request_def
          archive_request_def d0_def)
  have v: "fmt_d (StatusCode ?r4) = ''404''" "fmt_d (StatusCode ?r5) = ''503''"
    "body_fmt ?r4 = rendering" "body_fmt ?r5 = rendering" "StatusCode ?r4 \<noteq> 200"
    by (simp_all add: refused_def fmt_d_def)
  from status_error_omits_body [OF p1, where res="?r4" and w="files []"] p2
  have a: "fst (Download ?P d0 (files [])) =
       Inl (Wrap (Errorf (''Received invalid status code 404: '' @ rendering))
              ''Cannot get archive MD5 hash'')"
    by (simp add: v)
  from status_error_omits_body [OF q1, where res="?r5" and ok="respond 200 ''cba''" and w="files []"] q2
  have b: "fst (Download ?Q d0 (files [])) =
       Inl (Errorf (''Received invalid status code 503: '' @ rendering))"
    by (simp add: v)
  show "NewRequest_err ?P (endpoint d0) = None \<and> StatusCode ?r4 \<noteq> 200 \<and>
     fst (Download ?P d0 (files [])) =
       Inl (Wrap (Errorf (''Received invalid status code 404: '' @ rendering))
              ''Cannot get archive MD5 hash'') \<and>
     \<not> stat_ok ?Q (files []) (archive_path ?Q d0) \<and>
     fst (Download ?Q d0 (files [])) =
       Inl (Errorf (''Received invalid status code 503: '' @ rendering))"
    using p1 v(5) a ns b by simp
qed

subsection \<open>What the callback returns and adds\<close>

lemma walkFn_irrelevant: "\<not> relevant f \<Longrightarrow> walkFn P d f s = (None, s)"
  by (cases s) (auto simp: walkFn_def relevant_def)

lemma walk_filter: "walk P d es s = walk P d (filter relevant es) s"
  by (induction es arbitrary: s) (auto simp: walkFn_irrelevant split: prod.splits option.splits)

lemma extractDb_result:
  "extractDb P f r p (dbs, w) = (x, dbs', w') \<Longrightarrow> dbs' = dbs \<or> (dbs' = dbs @ [f] \<and> x = None)"
  by (auto simp: extractDb_def os_Create_def io_Copy_def os_Chtimes_def say_def
       split: option.splits prod.splits)

lemma walkFn_result:
  "walkFn P d f (dbs, w) = (x, dbs', w') \<Longrightarrow>
     dbs' = dbs \<or> (dbs' = dbs @ [f] \<and> relevant f \<and> x = None)"
  by (auto simp: walkFn_def relevant_def Let_def dest: extractDb_result
       split: if_splits sum.splits prod.splits)

lemma walk_result:
  "walk P d es (dbs, w) = (x, dbs', w') \<Longrightarrow>
     \<exists>new. dbs' = dbs @ new \<and> subseq new (filter relevant es)"
proof (induction es arbitrary: dbs w)
  case Nil
  then show ?case by simp
next
  case (Cons f es)
  obtain y dbs1 w1 where step: "walkFn P d f (dbs, w) = (y, dbs1, w1)"
    by (cases "walkFn P d f (dbs, w)") auto
  from walkFn_result [OF step]
  have one: "dbs1 = dbs \<or> (dbs1 = dbs @ [f] \<and> relevant f \<and> y = None)" .
  show ?case
  proof (cases y)
    case (Some e)
    with Cons.prems step one show ?thesis by auto
  next
    case None
    with Cons.prems step have "walk P d es (dbs1, w1) = (x, dbs', w')" by simp
    from Cons.IH [OF this] obtain new where
      n: "dbs' = dbs1 @ new" "subseq new (filter relevant es)" by blast
    from one show ?thesis
    proof
      assume "dbs1 = dbs"
      with n show ?thesis by (auto intro: subseq_Cons')
    next
      assume "dbs1 = dbs @ [f] \<and> relevant f \<and> y = None"
      with n show ?thesis by auto
    qed
  qed
qed

subsection \<open>The marker is written, never read\<close>

text \<open>
  Claim C3 as stated fails: the marker is present and holds the expected checksum
  (\<open>currentHash\<close> returns it), the archive on disk is another one, and the fetch step
  does not accept the archive: it computes its digest, requests the archive and
  replaces the file.
\<close>

theorem marker_counterexample:
  "fs w_stale (md5file P0 d0) = Some ''cba'' \<and>
   currentHash P0 d0 w_stale = Inr ''cba'' \<and>
   fst (expectedHash P0 d0 w_stale) = Inr ''cba'' \<and>
   fs w_stale (archive_path P0 d0) = Some ''old'' \<and>
   http_log (snd (downloadArchive P0 d0 ''cba'' (archive_path P0 d0) w_stale)) =
     [archive_request d0] \<and>
   fs (snd (downloadArchive P0 d0 ''cba'' (archive_path P0 d0) w_stale)) (archive_path P0 d0) =
     Some ''abc''"
  by (simp add: currentHash_def expectedHash_def downloadArchive_def fetchArchive_def stat_ok_def
        Do_def run w_stale_def scen)

lemma fetchArchive_other_file:
  assumes "q \<noteq> a"
  shows "fetchArchive P d h a (w\<lparr>fs := (fs w)(q := m)\<rparr>) =
         (fst (fetchArchive P d h a w),
          (snd (fetchArchive P d h a w))\<lparr>fs := (fs (snd (fetchArchive P d h a w)))(q := m)\<rparr>)"
  using assms
  by (auto simp: fetchArchive_def Let_def Do_def os_Create_def io_Copy_def
        checksumFromFile_def say_def fun_upd_twist
      split: option.splits sum.splits)

lemma downloadArchive_other_file:
  assumes "q \<noteq> a"
  shows "downloadArchive P d h a (w\<lparr>fs := (fs w)(q := m)\<rparr>) =
         (fst (downloadArchive P d h a w),
          (snd (downloadArchive P d h a w))\<lparr>fs := (fs (snd (downloadArchive P d h a w)))(q := m)\<rparr>)"
  using assms fetchArchive_other_file [OF assms, of P d h w m]
  by (auto simp: downloadArchive_def stat_ok_def checksumFromFile_def say_def
      split: option.splits sum.splits)

lemma fetchArchive_sends:
  "fetchArchive P d h a w = (None, w') \<Longrightarrow> http_log w' = http_log w @ [archive_request d]"
  by (auto simp: fetchArchive_def Let_def Do_def os_Create_def io_Copy_def
        checksumFromFile_def say_def
      split: option.splits sum.splits if_splits)

text \<open>
  Claim C3, amended. The fetch step does not consult the checksum marker: with the
  marker absent or holding any content, \<open>downloadArchive\<close> returns the same result, sends
  the same requests and leaves the same files, the marker itself as it was. The archive
  on disk is accepted without a request exactly when \<^verbatim>\<open>os.Stat\<close> succeeds on it and the
  digest computed from its content equals the expected checksum. Marker and archive are
  different files.
\<close>

theorem marker_not_consulted:
  assumes "md5file P d \<noteq> archive"
  shows "fst (downloadArchive P d expHash archive (w\<lparr>fs := (fs w)(md5file P d := m)\<rparr>)) =
           fst (downloadArchive P d expHash archive w) \<and>
         http_log (snd (downloadArchive P d expHash archive (w\<lparr>fs := (fs w)(md5file P d := m)\<rparr>))) =
           http_log (snd (downloadArchive P d expHash archive w)) \<and>
         fs (snd (downloadArchive P d expHash archive (w\<lparr>fs := (fs w)(md5file P d := m)\<rparr>))) =
           (fs (snd (downloadArchive P d expHash archive w)))(md5file P d := m) \<and>
         ((fst (downloadArchive P d expHash archive w) = None \<and>
           http_log (snd (downloadArchive P d expHash archive w)) = http_log w) =
          (stat_ok P w archive \<and> checksumFromFile P w archive = Inr expHash))"
proof -
  have a: "downloadArchive P d expHash archive (w\<lparr>fs := (fs w)(md5file P d := m)\<rparr>) =
         (fst (downloadArchive P d expHash archive w),
          (snd (downloadArchive P d expHash archive w))
            \<lparr>fs := (fs (snd (downloadArchive P d expHash archive w)))(md5file P d := m)\<rparr>)"
    by (rule downloadArchive_other_file [OF assms])
  have b: "(fst (downloadArchive P d expHash archive w) = None \<and>
           http_log (snd (downloadArchive P d expHash archive w)) = http_log w) =
          (stat_ok P w archive \<and> checksumFromFile P w archive = Inr expHash)"
  proof (cases "stat_ok P w archive \<and> checksumFromFile P w archive = Inr expHash")
    case True
    then show ?thesis by (simp add: downloadArchive_def say_def)
  next
    case False
    obtain r w' where f: "fetchArchive P d expHash archive w = (r, w')"
      by (cases "fetchArchive P d expHash archive w") auto
    have "r = None \<Longrightarrow> http_log w' \<noteq> http_log w"
      using fetchArchive_sends [of P d expHash archive w w'] f by auto
    with False f show ?thesis
      by (auto simp: downloadArchive_def split: sum.splits)
  qed
  show ?thesis
    by (simp add: a b)
qed

theorem marker_not_consulted_witness:
  "md5file P0 d0 \<noteq> archive_path P0 d0 \<and>
   fst (downloadArchive P0 d0 ''cba'' (archive_path P0 d0)
         ((files [(''/w/E.tgz'', ''old'')])
            \<lparr>fs := (fs (files [(''/w/E.tgz'', ''old'')]))(md5file P0 d0 := Some ''cba'')\<rparr>)) = None \<and>
   http_log (snd (downloadArchive P0 d0 ''cba'' (archive_path P0 d0)
         ((files [(''/w/E.tgz'', ''old'')])
            \<lparr>fs := (fs (files [(''/w/E.tgz'', ''old'')]))(md5file P0 d0 := Some ''cba'')\<rparr>))) =
     [archive_request d0] \<and>
   \<not> (stat_ok P0 (files [(''/w/E.tgz'', ''old'')]) (archive_path P0 d0) \<and>
      checksumFromFile P0 (files [(''/w/E.tgz'', ''old'')]) (archive_path P0 d0) = Inr ''cba'')"
proof -
  let ?w = "files [(''/w/E.tgz'', ''old'')]"
  have h: "md5file P0 d0 \<noteq> archive_path P0 d0"
    by (simp add: scen)
  have r: "fst (downloadArchive P0 d0 ''cba'' (archive_path P0 d0) ?w) = None"
    "http_log (snd (downloadArchive P0 d0 ''cba'' (archive_path P0 d0) ?w)) = [archive_request d0]"
    by (simp_all add: downloadArchive_def fetchArchive_def stat_ok_def Do_def run scen)
  have n: "\<not> (stat_ok P0 ?w (archive_path P0 d0) \<and>
      checksumFromFile P0 ?w (archive_path P0 d0) = Inr ''cba'')"
    by (simp add: checksumFromFile_def scen)
  from marker_not_consulted [OF h, of "''cba''" ?w "Some ''cba''"] h r n show ?thesis
    by simp
qed

subsection \<open>Modification times are best effort\<close>

text \<open>
  Whether \<^verbatim>\<open>os.Chtimes\<close> fails has no influence on what is returned, on the files, on the
  files opened and on the requests sent, at any level of the pipeline.
\<close>

lemma extractDb_chtimes:
  assumes "alike w v"
  shows "fst (extractDb (P\<lparr>chtimes_err := c\<rparr>) f r p (dbs, w)) = fst (extractDb P f r p (dbs, v)) \<and>
         fst (snd (extractDb (P\<lparr>chtimes_err := c\<rparr>) f r p (dbs, w))) =
           fst (snd (extractDb P f r p (dbs, v))) \<and>
         alike (snd (snd (extractDb (P\<lparr>chtimes_err := c\<rparr>) f r p (dbs, w))))
               (snd (snd (extractDb P f r p (dbs, v))))"
  using assms
  by (auto simp: extractDb_def os_Create_def io_Copy_def os_Chtimes_def say_def alike_def
      split: option.splits)

lemma walkFn_chtimes:
  assumes "alike w v"
  shows "fst (walkFn (P\<lparr>chtimes_err := c\<rparr>) d f (dbs, w)) = fst (walkFn P d f (dbs, v)) \<and>
         fst (snd (walkFn (P\<lparr>chtimes_err := c\<rparr>) d f (dbs, w))) =
           fst (snd (walkFn P d f (dbs, v))) \<and>
         alike (snd (snd (walkFn (P\<lparr>chtimes_err := c\<rparr>) d f (dbs, w))))
               (snd (snd (walkFn P d f (dbs, v))))"
proof -
  have fsq: "fs w = fs v" using assms by (simp add: alike_def)
  have sayq: "\<And>l m e. alike (say l m e w) (say l m e v)"
    using assms by (simp add: alike_def say_def)
  show ?thesis
    using assms extractDb_chtimes [OF assms, where P=P and c=c and f=f and dbs=dbs] sayq
    by (simp add: walkFn_def Let_def checksumFromReader_def checksumFromFile_def
          fileExists_def fsq split: option.splits)
qed

lemma walk_chtimes:
  "alike w v \<Longrightarrow>
   fst (walk (P\<lparr>chtimes_err := c\<rparr>) d es (dbs, w)) = fst (walk P d es (dbs, v)) \<and>
   fst (snd (walk (P\<lparr>chtimes_err := c\<rparr>) d es (dbs, w))) = fst (snd (walk P d es (dbs, v))) \<and>
   alike (snd (snd (walk (P\<lparr>chtimes_err := c\<rparr>) d es (dbs, w))))
         (snd (snd (walk P d es (dbs, v))))"
proof (induction es arbitrary: dbs w v)
  case Nil
  then show ?case by simp
next
  case (Cons f es)
  obtain x dbs1 w1 where a: "walkFn (P\<lparr>chtimes_err := c\<rparr>) d f (dbs, w) = (x, dbs1, w1)"
    by (cases "walkFn (P\<lparr>chtimes_err := c\<rparr>) d f (dbs, w)") auto
  obtain y dbs2 v1 where b: "walkFn P d f (dbs, v) = (y, dbs2, v1)"
    by (cases "walkFn P d f (dbs, v)") auto
  from walkFn_chtimes [OF Cons.prems, where P=P and c=c and d=d and f=f and dbs=dbs] a b
  have e: "x = y" "dbs1 = dbs2" "alike w1 v1" by simp_all
  show ?case
  proof (cases y)
    case None
    with a b e Cons.IH [OF e(3), where dbs=dbs2] show ?thesis by simp
  next
    case (Some err)
    with a b e show ?thesis by simp
  qed
qed

lemma extractArchive_walk:
  assumes "fs w a = Some bs" and "read_err P a = None" and "walk_entries P a bs = (es, dm)"
  shows "extractArchive P d a w =
           ((fst (snd (walk P d es ([], w))),
             (case fst (walk P d es ([], w)) of Some e \<Rightarrow> Some e | None \<Rightarrow> dm)),
            snd (snd (walk P d es ([], w))))"
  using assms by (simp add: extractArchive_def split: prod.splits option.splits)

lemma extractArchive_chtimes:
  "fst (extractArchive (P\<lparr>chtimes_err := c\<rparr>) d a w) = fst (extractArchive P d a w) \<and>
   alike (snd (extractArchive (P\<lparr>chtimes_err := c\<rparr>) d a w)) (snd (extractArchive P d a w))"
proof (cases "fs w a")
  case None
  then show ?thesis by (simp add: extractArchive_def alike_def)
next
  case (Some bs)
  show ?thesis
  proof (cases "read_err P a")
    case (Some e)
    with \<open>fs w a = Some bs\<close> show ?thesis by (simp add: extractArchive_def alike_def)
  next
    case None
    obtain es dm where en: "walk_entries P a bs = (es, dm)"
      by (cases "walk_entries P a bs") auto
    have r: "alike w w" by (simp add: alike_def)
    have 1: "extractArchive (P\<lparr>chtimes_err := c\<rparr>) d a w =
           ((fst (snd (walk (P\<lparr>chtimes_err := c\<rparr>) d es ([], w))),
             (case fst (walk (P\<lparr>chtimes_err := c\<rparr>) d es ([], w)) of Some e \<Rightarrow> Some e | None \<Rightarrow> dm)),
            snd (snd (walk (P\<lparr>chtimes_err := c\<rparr>) d es ([], w))))"
      using \<open>fs w a = Some bs\<close> None en
      by (simp add: extractArchive_def split: prod.splits option.splits)
    have 2: "extractArchive P d a w =
           ((fst (snd (walk P d es ([], w))),
             (case fst (walk P d es ([], w)) of Some e \<Rightarrow> Some e | None \<Rightarrow> dm)),
            snd (snd (walk P d es ([], w))))"
      using \<open>fs w a = Some bs\<close> None en
      by (simp add: extractArchive_def split: prod.splits option.splits)
    show ?thesis
      using walk_chtimes [OF r, where P=P and c=c and d=d and dbs="[]" and es=es]
      by (simp add: 1 2)
  qed
qed

lemma Download_extract:
  assumes "expectedHash P d w = (Inr h, w1)"
    and "downloadArchive P d h (archive_path P d) w1 = (None, w2)"
    and "createFile P (md5file P d) h w2 = (None, w3)"
  shows "Download P d w =
           ((case snd (fst (extractArchive P d (archive_path P d) w3)) of
               Some e \<Rightarrow> Inl e
             | None \<Rightarrow> Inr (fst (fst (extractArchive P d (archive_path P d) w3)))),
            snd (extractArchive P d (archive_path P d) w3))"
  using assms by (simp add: Download_def split: prod.splits option.splits)

lemma Download_chtimes:
  "fst (Download (P\<lparr>chtimes_err := c\<rparr>) d w) = fst (Download P d w) \<and>
   alike (snd (Download (P\<lparr>chtimes_err := c\<rparr>) d w)) (snd (Download P d w))"
proof -
  let ?P = "P\<lparr>chtimes_err := c\<rparr>"
  have 1: "expectedHash ?P d w = expectedHash P d w"
    by (simp add: expectedHash_def Do_def split: option.splits)
  have 2: "\<And>h a u. downloadArchive ?P d h a u = downloadArchive P d h a u"
    by (simp add: downloadArchive_def fetchArchive_def stat_ok_def checksumFromFile_def Do_def
          os_Create_def io_Copy_def Let_def split: option.splits sum.splits)
  have 3: "\<And>p s u. createFile ?P p s u = createFile P p s u"
    by (simp add: createFile_def os_Create_def io_Copy_def split: option.splits)
  have 4: "archive_path ?P d = archive_path P d" "md5file ?P d = md5file P d"
    by (simp_all add: archive_path_def md5file_def)
  have r: "\<And>u. alike u u" by (simp add: alike_def)
  obtain x w1 where e: "expectedHash P d w = (x, w1)"
    by (cases "expectedHash P d w") auto
  show ?thesis
  proof (cases x)
    case (Inl err)
    with e 1 show ?thesis by (simp add: Download_def r)
  next
    case (Inr h)
    obtain y w2 where dl: "downloadArchive P d h (archive_path P d) w1 = (y, w2)"
      by (cases "downloadArchive P d h (archive_path P d) w1") auto
    show ?thesis
    proof (cases y)
      case (Some err)
      with e Inr dl 1 2 4 show ?thesis by (simp add: Download_def r)
    next
      case None
      obtain z w3 where cf: "createFile P (md5file P d) h w2 = (z, w3)"
        by (cases "createFile P (md5file P d) h w2") auto
      show ?thesis
      proof (cases z)
        case (Some err)
        with e Inr dl None cf 1 2 3 4 show ?thesis by (simp add: Download_def r)
      next
        case nz: None
        have a: "Download P d w =
           ((case snd (fst (extractArchive P d (archive_path P d) w3)) of
               Some e \<Rightarrow> Inl e
             | None \<Rightarrow> Inr (fst (fst (extractArchive P d (archive_path P d) w3)))),
            snd (extractArchive P d (archive_path P d) w3))"
          using e Inr dl None cf nz by (intro Download_extract) simp_all
        have e': "expectedHash ?P d w = (Inr h, w1)"
          using e Inr 1 by simp
        have dl': "downloadArchive ?P d h (archive_path ?P d) w1 = (None, w2)"
          using dl None 2 4 by simp
        have cf': "createFile ?P (md5file ?P d) h w2 = (None, w3)"
          using cf nz 3 4 by simp
        have b: "Download ?P d w =
           ((case snd (fst (extractArchive ?P d (archive_path P d) w3)) of
               Some e \<Rightarrow> Inl e
             | None \<Rightarrow> Inr (fst (fst (extractArchive ?P d (archive_path P d) w3)))),
            snd (extractArchive ?P d (archive_path P d) w3))"
          using Download_extract [OF e' dl' cf'] unfolding 4 .
        show ?thesis
          using extractArchive_chtimes [where P=P and c=c and d=d and a="archive_path P d" and w=w3]
          by (simp add: a b cong: option.case_cong)
      qed
    qed
  qed
qed


text \<open>
  Claim C9. For a relevant entry that is extracted (its bytes can be read, its
  destination is absent or has another digest, creating and writing the destination do
  not fail): when \<^verbatim>\<open>os.Chtimes\<close> fails with \<open>e\<close>, the callback returns no error, the
  destination holds the bytes of the entry, the entry itself, with its own modification
  time, is appended to the list, and the only trace of the failure is a warning in the
  log that carries \<open>e\<close>. And for every run of \<open>Download\<close>: whichever calls of
  \<^verbatim>\<open>os.Chtimes\<close> fail, \<open>Download\<close> returns the same result (the same error, or success with
  the same list) and leaves the same file contents.
\<close>

theorem modtime_best_effort:
  assumes "relevant f" and "data_err f = None"
    and "\<not> fileExists w (dest P d f) \<or>
         (\<exists>cur. checksumFromFile P w (dest P d f) = Inr cur \<and> cur \<noteq> md5sum P (data f))"
    and "create_err P (dest P d f) = None" and "write_err P (dest P d f) = None"
    and "chtimes_err P (dest P d f) = Some e"
  shows "walkFn P d f (dbs, w) =
           (None, dbs @ [f],
            w\<lparr>fs := (fs w)(dest P d f \<mapsto> data f),
              created := created w @ [dest P d f],
              logged := logged w @ [Log Debug ''Extracting database'' None,
                Log Warn ''Cannot preserve modtime of database file'' (Some e)]\<rparr>) \<and>
         fst (Download (P\<lparr>chtimes_err := c\<rparr>) d w0) = fst (Download P d w0) \<and>
         fs (snd (Download (P\<lparr>chtimes_err := c\<rparr>) d w0)) = fs (snd (Download P d w0))"
proof -
  have a: "walkFn P d f (dbs, w) = extractDb P f (data f) (dest P d f) (dbs, w)"
    using assms(1-3)
    by (auto simp: walkFn_def relevant_def dest_def checksumFromReader_def Let_def)
  have b: "extractDb P f (data f) (dest P d f) (dbs, w) =
           (None, dbs @ [f],
            w\<lparr>fs := (fs w)(dest P d f \<mapsto> data f),
              created := created w @ [dest P d f],
              logged := logged w @ [Log Debug ''Extracting database'' None,
                Log Warn ''Cannot preserve modtime of database file'' (Some e)]\<rparr>)"
    using assms(4-6)
    by (simp add: extractDb_def os_Create_def io_Copy_def os_Chtimes_def say_def)
  show ?thesis
    using a b Download_chtimes [where P=P and c=c and d=d and w=w0]
    by (simp add: alike_def)
qed

theorem modtime_best_effort_witness:
  "relevant e_csv \<and> \<not> fileExists w_arch (dest P_noch d0 e_csv) \<and>
   chtimes_err P_noch (dest P_noch d0 e_csv) = Some (External ''operation not permitted'') \<and>
   walkFn P_noch d0 e_csv ([], w_arch) =
     (None, [e_csv],
      w_arch\<lparr>fs := (fs w_arch)(''/d/a.csv'' \<mapsto> ''xy''), created := [''/d/a.csv''],
        logged := [Log Debug ''Extracting database'' None,
          Log Warn ''Cannot preserve modtime of database file''
            (Some (External ''operation not permitted''))]\<rparr>) \<and>
   fst (Download P_noch d0 w_arch) = Inr [e_csv, e_mmdb] \<and>
   ModTime e_csv = 7"
proof -
  have h1: "relevant e_csv" by (simp add: relevant_def Ext_def e_csv_def)
  have h2: "data_err e_csv = None" by (simp add: e_csv_def)
  have h3: "\<not> fileExists w_arch (dest P_noch d0 e_csv)"
    by (simp add: fileExists_def dest_def w_arch_def P_noch_def scen)
  have h4: "create_err P_noch (dest P_noch d0 e_csv) = None"
    "write_err P_noch (dest P_noch d0 e_csv) = None"
    by (simp_all add: P_noch_def P0_def)
  have h5: "chtimes_err P_noch (dest P_noch d0 e_csv) = Some (External ''operation not permitted'')"
    by (simp add: P_noch_def)
  have p: "P_noch\<lparr>chtimes_err := (\<lambda>p. None)\<rparr> = P0"
    by (simp add: P_noch_def P0_def)
  have g: "fst (Download P0 d0 w_arch) = Inr [e_csv, e_mmdb]"
    by (simp add: pipeline run w_arch_def scen)
  have v: "dest P_noch d0 e_csv = ''/d/a.csv''" "data e_csv = ''xy''" "ModTime e_csv = 7"
    "created w_arch = []" "logged w_arch = []"
    by (simp_all add: dest_def P_noch_def w_arch_def scen)
  from modtime_best_effort [OF h1 h2 disjI1 [OF h3] h4 h5,
      where dbs="[]" and c="\<lambda>p. None" and ?w0.0=w_arch]
  show ?thesis
    using h1 h3 h5 by (simp add: p g v)
qed

subsection \<open>A second call\<close>

lemma extractDb_frame:
  "extractDb P f r p (dbs, w) = (x, dbs', w') \<Longrightarrow>
     (\<forall>q. q \<noteq> p \<longrightarrow> fs w' q = fs w q) \<and> http_log w' = http_log w"
  by (auto simp: extractDb_def os_Create_def io_Copy_def os_Chtimes_def say_def
      split: option.splits)

lemma extractDb_ok:
  "extractDb P f r p (dbs, w) = (None, dbs', w') \<Longrightarrow> fs w' p = Some r"
  by (auto simp: extractDb_def os_Create_def io_Copy_def os_Chtimes_def say_def
      split: option.splits)

lemma walkFn_frame:
  "walkFn P d f (dbs, w) = (x, dbs', w') \<Longrightarrow>
     (\<forall>q. q \<noteq> dest P d f \<longrightarrow> fs w' q = fs w q) \<and> http_log w' = http_log w"
  by (auto simp: walkFn_def Let_def dest_def say_def checksumFromReader_def
      dest!: extractDb_frame split: if_splits sum.splits)

lemma walkFn_ok_current:
  "walkFn P d f (dbs, w) = (None, dbs', w') \<Longrightarrow> relevant f \<Longrightarrow> current P d w' f"
  by (auto simp: walkFn_def Let_def dest_def say_def checksumFromReader_def current_def
        relevant_def checksumFromFile_def fileExists_def
      dest!: extractDb_ok split: if_splits sum.splits option.splits)

lemma current_fs: "fs v (dest P d f) = fs w (dest P d f) \<Longrightarrow> current P d v f = current P d w f"
  by (simp add: current_def)

lemma walk_ok_current:
  "walk P d es (dbs, w) = (None, dbs', w') \<Longrightarrow>
   distinct (map (dest P d) (filter relevant es)) \<Longrightarrow>
     (\<forall>f \<in> set (filter relevant es). current P d w' f) \<and>
     (\<forall>q. q \<notin> set (map (dest P d) (filter relevant es)) \<longrightarrow> fs w' q = fs w q) \<and>
     http_log w' = http_log w"
proof (induction es arbitrary: dbs w)
  case Nil
  then show ?case by simp
next
  case (Cons f es)
  obtain x dbs1 w1 where step: "walkFn P d f (dbs, w) = (x, dbs1, w1)"
    by (cases "walkFn P d f (dbs, w)") auto
  have x: "x = None"
    using Cons.prems(1) step by (cases x) auto
  have rest: "walk P d es (dbs1, w1) = (None, dbs', w')"
    using Cons.prems(1) step x by simp
  have dis: "distinct (map (dest P d) (filter relevant es))"
    using Cons.prems(2) by (auto split: if_splits)
  note ih = Cons.IH [OF rest dis]
  note fr = walkFn_frame [OF step]
  show ?case
  proof (cases "relevant f")
    case False
    have "w1 = w" using step walkFn_irrelevant [OF False, of P d "(dbs, w)"] by simp
    with ih False show ?thesis by simp
  next
    case True
    have notin: "dest P d f \<notin> set (map (dest P d) (filter relevant es))"
      using Cons.prems(2) True by simp
    have "current P d w1 f"
      using walkFn_ok_current step x True by blast
    moreover have "fs w' (dest P d f) = fs w1 (dest P d f)"
      using ih notin by blast
    ultimately have cur: "current P d w' f"
      using current_fs by blast
    have frame: "\<forall>q. q \<notin> set (map (dest P d) (filter relevant (f # es))) \<longrightarrow> fs w' q = fs w q"
      using ih fr True by auto
    show ?thesis
      using ih fr cur frame True by auto
  qed
qed

lemma walkFn_current:
  assumes "current P d w f" and "relevant f"
  shows "(walkFn P d f (dbs, w) = (None, dbs, w\<lparr>logged := logged w @ [up_to_date]\<rparr>)) \<or>
         (\<exists>e. walkFn P d f (dbs, w) = (Some e, dbs, w) \<and> read_err P (dest P d f) = Some e)"
  using assms
  by (auto simp: walkFn_def Let_def dest_def say_def checksumFromReader_def current_def
        relevant_def checksumFromFile_def fileExists_def up_to_date_def
      split: option.splits)

lemma walk_all_current:
  "\<forall>f \<in> set (filter relevant es). current P d w f \<Longrightarrow>
   walk P d es (dbs, w) = (x, dbs', w') \<Longrightarrow>
     dbs' = dbs \<and> fs w' = fs w \<and> mtimes w' = mtimes w \<and> created w' = created w \<and>
     http_log w' = http_log w \<and>
     (\<exists>n. logged w' = logged w @ replicate n up_to_date) \<and>
     ((\<forall>f \<in> set (filter relevant es). read_err P (dest P d f) = None) \<longrightarrow> x = None)"
proof (induction es arbitrary: w)
  case Nil
  then show ?case by (auto intro: exI [of _ 0])
next
  case (Cons f es)
  show ?case
  proof (cases "relevant f")
    case False
    with Cons.prems have "walk P d es (dbs, w) = (x, dbs', w')"
      by (simp add: walkFn_irrelevant)
    with Cons.IH [of w] Cons.prems(1) False show ?thesis by simp
  next
    case True
    with Cons.prems(1) have cur: "current P d w f" by simp
    from walkFn_current [OF cur True, of dbs] show ?thesis
    proof
      assume s: "walkFn P d f (dbs, w) = (None, dbs, w\<lparr>logged := logged w @ [up_to_date]\<rparr>)"
      let ?w1 = "w\<lparr>logged := logged w @ [up_to_date]\<rparr>"
      have c1: "\<forall>f \<in> set (filter relevant es). current P d ?w1 f"
        using Cons.prems(1) by (simp add: current_def)
      have r: "walk P d es (dbs, ?w1) = (x, dbs', w')"
        using Cons.prems(2) s by simp
      from Cons.IH [OF c1 r] obtain n where
        "dbs' = dbs" "fs w' = fs w" "mtimes w' = mtimes w" "created w' = created w"
        "http_log w' = http_log w" "logged w' = (logged w @ [up_to_date]) @ replicate n up_to_date"
        "(\<forall>f \<in> set (filter relevant es). read_err P (dest P d f) = None) \<longrightarrow> x = None"
        by auto
      then show ?thesis
        by (auto intro!: exI [of _ "Suc n"])
    next
      assume "\<exists>e. walkFn P d f (dbs, w) = (Some e, dbs, w) \<and> read_err P (dest P d f) = Some e"
      with Cons.prems(2) True show ?thesis by (auto intro: exI [of _ 0])
    qed
  qed
qed

lemma createFile_None:
  "createFile P p s w = (None, w') \<Longrightarrow>
     create_err P p = None \<and> write_err P p = None \<and>
     w' = w\<lparr>fs := (fs w)(p \<mapsto> s), created := created w @ [p]\<rparr>"
  by (auto simp: createFile_def os_Create_def io_Copy_def split: option.splits)

lemma expectedHash_again:
  "expectedHash P d w = (Inr h, w1) \<Longrightarrow>
   expectedHash P d v = (Inr h, v\<lparr>http_log := http_log v @ [md5_request d]\<rparr>)"
  by (auto simp: expectedHash_def Do_def split: option.splits sum.splits if_splits)

text \<open>
  Claim C6 as stated fails for an archive with two payload entries of the same name and
  different contents: each entry finds the other's bytes at the destination. The first
  call succeeds and leaves the bytes of the second entry at the destination; the second
  call, with nothing changed on the remote side, opens the destination for writing
  twice, replaces its bytes by those of the first entry and then again by those of the
  second, and returns both entries as extracted.
\<close>

theorem second_call_counterexample:
  "fst (Download P_dup d0 (files [])) = Inr [e_csv, e_dup] \<and>
   fst (Download P_dup d0 (snd (Download P_dup d0 (files [])))) = Inr [e_csv, e_dup] \<and>
   created (snd (Download P_dup d0 (snd (Download P_dup d0 (files []))))) =
     created (snd (Download P_dup d0 (files []))) @ [''/w/.E.tgz.md5'', ''/d/a.csv'', ''/d/a.csv''] \<and>
   fs (snd (Download P_dup d0 (files []))) ''/d/a.csv'' = Some ''zz'' \<and>
   fs (snd (snd (walkFn P_dup d0 e_csv ([], snd (Download P_dup d0 (files [])))))) ''/d/a.csv'' =
     Some ''xy''"
  by (simp add: pipeline run P_dup_def e_dup_def scen)

text \<open>
  Claim C6, amended. Suppose a first call of \<open>Download\<close> succeeds, with expected checksum
  \<open>expHash\<close> and archive bytes \<open>bs\<close> on disk after its fetch step; the relevant entries of
  the archive have pairwise distinct destinations, none of them the archive or the
  marker; marker and archive are different files; and \<^verbatim>\<open>os.Stat\<close> does not fail on the
  archive. Then a second call from the world the first one left sends the checksum
  request and no other, opens only the marker for writing, leaves every file's content
  and every modification time as it was, and returns no descriptor; it succeeds, with
  the empty list, when reading the destinations does not fail.
\<close>

theorem second_call_idle:
  assumes e: "expectedHash P d w = (Inr expHash, w1)"
    and dl: "downloadArchive P d expHash (archive_path P d) w1 = (None, w2)"
    and ar: "fs w2 (archive_path P d) = Some bs"
    and ok: "Download P d w = (Inr dbs, w')"
    and st: "stat_err P (archive_path P d) = None"
    and di: "distinct (dests P d bs)"
    and na: "archive_path P d \<notin> set (dests P d bs)"
    and nm: "md5file P d \<notin> set (dests P d bs)"
    and ma: "md5file P d \<noteq> archive_path P d"
  shows "http_log (snd (Download P d w')) = http_log w' @ [md5_request d] \<and>
         created (snd (Download P d w')) = created w' @ [md5file P d] \<and>
         fs (snd (Download P d w')) = fs w' \<and>
         mtimes (snd (Download P d w')) = mtimes w' \<and>
         (\<forall>dbs2. fst (Download P d w') \<noteq> Inr dbs2 \<or> dbs2 = []) \<and>
         ((\<forall>q \<in> set (dests P d bs). read_err P q = None) \<longrightarrow> fst (Download P d w') = Inr [])"
proof -
  let ?a = "archive_path P d"
  let ?m = "md5file P d"
  obtain z w3 where cf: "createFile P ?m expHash w2 = (z, w3)"
    by (cases "createFile P ?m expHash w2") auto
  have z: "z = None"
    using ok e dl cf by (cases z) (auto simp: Download_def)
  note cf = cf [unfolded z]
  note c3 = createFile_None [OF cf]
  from downloadArchive_valid [OF dl] ar
  have h: "md5sum P bs = expHash" and ra: "read_err P ?a = None" by auto
  have a3: "fs w3 ?a = Some bs"
    using c3 ar ma by simp
  have m3: "fs w3 ?m = Some expHash"
    using c3 by simp
  obtain es dm where en: "walk_entries P ?a bs = (es, dm)"
    by (cases "walk_entries P ?a bs") auto
  have ds: "dests P d bs = map (dest P d) (filter relevant es)"
    by (simp add: dests_def en)
  obtain x1 dbs1 u where r1: "walk P d es ([], w3) = (x1, dbs1, u)"
    by (cases "walk P d es ([], w3)") auto
  have X: "extractArchive P d ?a w3 = ((dbs1, (case x1 of Some e \<Rightarrow> Some e | None \<Rightarrow> dm)), u)"
    using extractArchive_walk [OF a3 ra en, of d] r1 by simp
  have D1: "Download P d w =
      ((case (case x1 of Some e \<Rightarrow> Some e | None \<Rightarrow> dm) of
          Some e \<Rightarrow> Inl e | None \<Rightarrow> Inr dbs1), u)"
    unfolding Download_extract [OF e dl cf] X by (simp cong: option.case_cong)
  have x1: "x1 = None" and dm: "dm = None" and u: "u = w'"
    using D1 ok by (auto split: option.splits)
  have r1': "walk P d es ([], w3) = (None, dbs1, w')"
    using r1 x1 u by simp
  from walk_ok_current [OF r1'] di ds
  have cur: "\<forall>f \<in> set (filter relevant es). current P d w' f"
    and fr: "\<forall>q. q \<notin> set (dests P d bs) \<longrightarrow> fs w' q = fs w3 q"
    by auto
  have a': "fs w' ?a = Some bs" using fr na a3 by simp
  have m': "fs w' ?m = Some expHash" using fr nm m3 by simp
  \<comment> \<open>the second call\<close>
  let ?v1 = "w'\<lparr>http_log := http_log w' @ [md5_request d]\<rparr>"
  let ?v2 = "say Debug ''Archive already downloaded and valid. Skipping download'' None ?v1"
  let ?v3 = "?v2\<lparr>fs := (fs ?v2)(?m \<mapsto> expHash), created := created ?v2 @ [?m]\<rparr>"
  have e2: "expectedHash P d w' = (Inr expHash, ?v1)"
    by (rule expectedHash_again [OF e])
  have dl2: "downloadArchive P d expHash ?a ?v1 = (None, ?v2)"
    using a' st ra h by (simp add: downloadArchive_def stat_ok_def checksumFromFile_def)
  have cf2: "createFile P ?m expHash ?v2 = (None, ?v3)"
    using c3 by (simp add: createFile_succeeds)
  have fs3: "fs ?v3 = fs w'"
    using m' by (simp add: say_def map_upd_triv)
  have a3': "fs ?v3 ?a = Some bs"
    using fs3 a' by simp
  obtain x2 dbs2 u2 where r2: "walk P d es ([], ?v3) = (x2, dbs2, u2)"
    by (cases "walk P d es ([], ?v3)") auto
  have cur3: "\<forall>f \<in> set (filter relevant es). current P d ?v3 f"
    using cur fs3 by (simp add: current_def)
  from walk_all_current [OF cur3 r2]
  have q: "dbs2 = []" "fs u2 = fs ?v3" "mtimes u2 = mtimes ?v3" "created u2 = created ?v3"
    "http_log u2 = http_log ?v3"
    "(\<forall>f \<in> set (filter relevant es). read_err P (dest P d f) = None) \<longrightarrow> x2 = None"
    by auto
  have Y: "extractArchive P d ?a ?v3 = (([], x2), u2)"
    using extractArchive_walk [OF a3' ra en, of d] r2 q(1) dm by (simp split: option.splits)
  have D2: "Download P d w' = ((case x2 of Some e \<Rightarrow> Inl e | None \<Rightarrow> Inr []), u2)"
    unfolding Download_extract [OF e2 dl2 cf2] Y by (simp cong: option.case_cong)
  have nr: "(\<forall>q \<in> set (dests P d bs). read_err P q = None) \<longrightarrow> x2 = None"
    using q(6) ds by simp
  show ?thesis
    using D2 q fs3 nr by (auto simp: say_def split: option.splits)
qed

theorem second_call_idle_witness:
  "fst (Download P0 d0 (files [])) = Inr [e_csv, e_mmdb] \<and>
   dests P0 d0 ''abc'' = [''/d/a.csv'', ''/d/d.mmdb''] \<and>
   fst (Download P0 d0 (snd (Download P0 d0 (files [])))) = Inr [] \<and>
   fs (snd (Download P0 d0 (snd (Download P0 d0 (files []))))) =
     fs (snd (Download P0 d0 (files []))) \<and>
   mtimes (snd (Download P0 d0 (snd (Download P0 d0 (files []))))) =
     mtimes (snd (Download P0 d0 (files []))) \<and>
   created (snd (Download P0 d0 (snd (Download P0 d0 (files []))))) =
     created (snd (Download P0 d0 (files []))) @ [md5file P0 d0] \<and>
   http_log (snd (Download P0 d0 (snd (Download P0 d0 (files []))))) =
     http_log (snd (Download P0 d0 (files []))) @ [md5_request d0]"
proof -
  let ?w1 = "(files [])\<lparr>http_log := [md5_request d0]\<rparr>"
  let ?w2 = "snd (downloadArchive P0 d0 ''cba'' (archive_path P0 d0) ?w1)"
  let ?w' = "snd (Download P0 d0 (files []))"
  have e: "expectedHash P0 d0 (files []) = (Inr ''cba'', ?w1)"
    by (simp add: expectedHash_def Do_def scen)
  have "fst (downloadArchive P0 d0 ''cba'' (archive_path P0 d0) ?w1) = None"
    by (simp add: downloadArchive_def fetchArchive_def stat_ok_def Do_def run scen)
  then have dl: "downloadArchive P0 d0 ''cba'' (archive_path P0 d0) ?w1 = (None, ?w2)"
    by (metis prod.collapse)
  have ar: "fs ?w2 (archive_path P0 d0) = Some ''abc''"
    by (simp add: downloadArchive_def fetchArchive_def stat_ok_def Do_def run scen)
  have g: "fst (Download P0 d0 (files [])) = Inr [e_csv, e_mmdb]"
    by (simp add: pipeline run scen)
  then have ok: "Download P0 d0 (files []) = (Inr [e_csv, e_mmdb], ?w')"
    by (metis prod.collapse)
  have st: "stat_err P0 (archive_path P0 d0) = None"
    by (simp add: P0_def)
  have ds: "dests P0 d0 ''abc'' = [''/d/a.csv'', ''/d/d.mmdb'']"
    by (simp add: dests_def dest_def relevant_def Ext_def scen)
  have di: "distinct (dests P0 d0 ''abc'')"
    "archive_path P0 d0 \<notin> set (dests P0 d0 ''abc'')"
    "md5file P0 d0 \<notin> set (dests P0 d0 ''abc'')"
    "md5file P0 d0 \<noteq> archive_path P0 d0"
    by (simp_all add: ds) (simp_all add: scen)
  have rd: "\<forall>q \<in> set (dests P0 d0 ''abc''). read_err P0 q = None"
    by (simp add: P0_def)
  from second_call_idle [OF e dl ar ok st di] rd g ds show ?thesis
    by simp
qed

subsection \<open>What the callback does with a relevant entry\<close>

text \<open>
  On a relevant entry the callback has three outcomes: it returns an error and leaves
  the list as it was; or the entry is current, and nothing but a debug line is written;
  or the entry is not current, its bytes are written to its destination and the entry
  is appended to the list. In each of them something has happened.
\<close>

lemma say_neq: "say l m e u \<noteq> u"
proof
  assume "say l m e u = u"
  then have "logged (say l m e u) = logged u" by simp
  then show False by (simp add: say_def)
qed

lemma extractDb_cases:
  "(\<exists>e. fst (extractDb P f r p (dbs, u)) = Some e \<and> fst (snd (extractDb P f r p (dbs, u))) = dbs \<and>
        (created (snd (snd (extractDb P f r p (dbs, u)))) = created u \<or>
         created (snd (snd (extractDb P f r p (dbs, u)))) = created u @ [p])) \<or>
   (fst (extractDb P f r p (dbs, u)) = None \<and>
    fst (snd (extractDb P f r p (dbs, u))) = dbs @ [f] \<and>
    fs (snd (snd (extractDb P f r p (dbs, u)))) p = Some r \<and>
    created (snd (snd (extractDb P f r p (dbs, u)))) = created u @ [p])"
  by (auto simp: extractDb_def os_Create_def io_Copy_def os_Chtimes_def say_def
      split: option.splits)

lemma walkFn_cases:
  assumes "relevant f"
  shows "(\<exists>e. fst (walkFn P d f (dbs, u)) = Some e \<and> fst (snd (walkFn P d f (dbs, u))) = dbs \<and>
            (created (snd (snd (walkFn P d f (dbs, u)))) = created u \<or>
             created (snd (snd (walkFn P d f (dbs, u)))) = created u @ [dest P d f])) \<or>
         (current P d u f \<and>
          walkFn P d f (dbs, u) = (None, dbs, say Debug ''Database is already up to date'' None u)) \<or>
         (\<not> current P d u f \<and>
          fst (walkFn P d f (dbs, u)) = None \<and>
          fst (snd (walkFn P d f (dbs, u))) = dbs @ [f] \<and>
          fs (snd (snd (walkFn P d f (dbs, u)))) (dest P d f) = Some (data f) \<and>
          created (snd (snd (walkFn P d f (dbs, u)))) = created u @ [dest P d f])"
proof -
  have nd: "\<not> IsDir f" and ex: "\<not> (Ext (Name f) \<noteq> ''.csv'' \<and> Ext (Name f) \<noteq> ''.mmdb'')"
    using assms by (auto simp: relevant_def)
  show ?thesis
  proof (cases "data_err f")
    case (Some e)
    then show ?thesis using nd ex by (auto simp: walkFn_def checksumFromReader_def)
  next
    case None
    note de = this
    have w1: "\<not> fileExists u (dest P d f) \<Longrightarrow>
        walkFn P d f (dbs, u) = extractDb P f (data f) (dest P d f) (dbs, u)"
      using nd ex de by (auto simp: walkFn_def checksumFromReader_def dest_def Let_def)
    show ?thesis
    proof (cases "fs u (dest P d f)")
      case None
      then have nc: "\<not> current P d u f" by (simp add: current_def)
      from None have "\<not> fileExists u (dest P d f)" by (simp add: fileExists_def)
      from w1 [OF this] extractDb_cases [of P f "data f" "dest P d f" dbs u] nc
      show ?thesis by auto
    next
      case (Some bs)
      then have fe: "fileExists u (dest P d f)" by (simp add: fileExists_def)
      show ?thesis
      proof (cases "read_err P (dest P d f)")
        case (Some e)
        then show ?thesis using nd ex de fe \<open>fs u (dest P d f) = Some bs\<close>
          by (auto simp: walkFn_def checksumFromReader_def checksumFromFile_def dest_def Let_def)
      next
        case None
        show ?thesis
        proof (cases "md5sum P (data f) = md5sum P bs")
          case True
          then have "current P d u f"
            using de \<open>fs u (dest P d f) = Some bs\<close> by (simp add: current_def)
          moreover have "walkFn P d f (dbs, u) =
              (None, dbs, say Debug ''Database is already up to date'' None u)"
            using nd ex de fe None True \<open>fs u (dest P d f) = Some bs\<close>
            by (auto simp: walkFn_def checksumFromReader_def checksumFromFile_def dest_def Let_def)
          ultimately show ?thesis by simp
        next
          case False
          then have nc: "\<not> current P d u f"
            using \<open>fs u (dest P d f) = Some bs\<close> by (auto simp: current_def)
          have "walkFn P d f (dbs, u) = extractDb P f (data f) (dest P d f) (dbs, u)"
            using nd ex de fe None False \<open>fs u (dest P d f) = Some bs\<close>
            by (auto simp: walkFn_def checksumFromReader_def checksumFromFile_def dest_def Let_def)
          with extractDb_cases [of P f "data f" "dest P d f" dbs u] nc
          show ?thesis by auto
        qed
      qed
    qed
  qed
qed

lemma walkFn_acts:
  assumes "relevant f"
  shows "walkFn P d f (dbs, u) \<noteq> (None, dbs, u)"
  using walkFn_cases [OF assms, of P d dbs u] say_neq [of Debug "''Database is already up to date''" None u]
  by auto

subsection \<open>The walk over an archive whose destinations are distinct\<close>

text \<open>
  When the relevant entries have pairwise distinct destinations, the walk appends the
  pending entries, in walk order, as far as it gets, and never touches the destination of
  an entry that was current when the walk started. With or without distinct destinations,
  the destinations of the appended entries are the files the walk has opened for writing.
\<close>

lemma walk_frame:
  "walk P d es (dbs, w) = (x, dbs', w') \<Longrightarrow>
     \<forall>q. q \<notin> set (map (dest P d) (filter relevant es)) \<longrightarrow> fs w' q = fs w q"
proof (induction es arbitrary: dbs w)
  case Nil
  then show ?case by simp
next
  case (Cons g es)
  obtain y dbs1 w1 where step: "walkFn P d g (dbs, w) = (y, dbs1, w1)"
    by (cases "walkFn P d g (dbs, w)") auto
  have fr: "\<forall>q. q \<notin> set (map (dest P d) (filter relevant (g # es))) \<longrightarrow> fs w1 q = fs w q"
  proof (cases "relevant g")
    case True
    with walkFn_frame [OF step] show ?thesis by auto
  next
    case False
    with step walkFn_irrelevant [OF False, of P d "(dbs, w)"] show ?thesis by simp
  qed
  show ?case
  proof (cases y)
    case (Some e)
    with Cons.prems step fr show ?thesis by auto
  next
    case None
    with Cons.prems step have "walk P d es (dbs1, w1) = (x, dbs', w')" by simp
    from Cons.IH [OF this] fr show ?thesis by auto
  qed
qed

lemma pending_fs:
  "fs v (dest P d f) = fs w (dest P d f) \<Longrightarrow> pending P d v f = pending P d w f"
  by (simp add: pending_def current_def)

lemma walk_pending:
  "distinct (map (dest P d) (filter relevant es)) \<Longrightarrow>
   walk P d es (dbs, w) = (x, dbs', w') \<Longrightarrow>
     (\<exists>new. dbs' = dbs @ new \<and> prefix new (filter (pending P d w) es) \<and>
        (x = None \<longrightarrow> new = filter (pending P d w) es) \<and>
        (\<exists>rest. created w' = created w @ map (dest P d) new @ rest \<and> (x = None \<longrightarrow> rest = []))) \<and>
     (\<forall>f \<in> set es. relevant f \<longrightarrow> current P d w f \<longrightarrow> fs w' (dest P d f) = fs w (dest P d f))"
proof (induction es arbitrary: dbs w)
  case Nil
  then show ?case by simp
next
  case (Cons g es)
  have dis: "distinct (map (dest P d) (filter relevant es))"
    using Cons.prems(1) by (auto split: if_splits)
  obtain y dbs1 w1 where step: "walkFn P d g (dbs, w) = (y, dbs1, w1)"
    by (cases "walkFn P d g (dbs, w)") auto
  show ?case
  proof (cases "relevant g")
    case False
    have s: "dbs1 = dbs" "w1 = w" "y = None"
      using step walkFn_irrelevant [OF False, of P d "(dbs, w)"] by simp_all
    have r: "walk P d es (dbs, w) = (x, dbs', w')"
      using Cons.prems(2) step s by simp
    have f: "filter (pending P d w) (g # es) = filter (pending P d w) es"
      using False by (simp add: pending_def)
    from Cons.IH [OF dis r] f False show ?thesis by auto
  next
    case True
    have notin: "dest P d g \<notin> set (map (dest P d) (filter relevant es))"
      using Cons.prems(1) True by simp
    have other: "dest P d f \<noteq> dest P d g" if "f \<in> set es" "relevant f" for f
    proof
      assume "dest P d f = dest P d g"
      moreover have "dest P d f \<in> set (map (dest P d) (filter relevant es))"
        using that by auto
      ultimately show False using notin by simp
    qed
    have fr1: "\<And>f. f \<in> set es \<Longrightarrow> relevant f \<Longrightarrow> fs w1 (dest P d f) = fs w (dest P d f)"
      using walkFn_frame [OF step] other by blast
    have pe: "filter (pending P d w1) es = filter (pending P d w) es"
    proof (rule filter_cong [OF refl])
      fix f assume "f \<in> set es"
      show "pending P d w1 f = pending P d w f"
      proof (cases "relevant f")
        case True
        from fr1 [OF \<open>f \<in> set es\<close> True] show ?thesis by (rule pending_fs)
      next
        case False
        then show ?thesis by (simp add: pending_def)
      qed
    qed
    have cu: "\<And>f. f \<in> set es \<Longrightarrow> relevant f \<Longrightarrow> current P d w1 f = current P d w f"
      using fr1 by (simp add: current_def)
    have gcur: "current P d w g \<Longrightarrow> fs w1 = fs w"
      using walkFn_current [OF _ True, of P d w dbs] step by auto
    from walkFn_cases [OF True, of P d dbs w] step
    consider
      (err) e where "y = Some e" "dbs1 = dbs"
          "created w1 = created w \<or> created w1 = created w @ [dest P d g]"
      | (same) "current P d w g" "y = None" "dbs1 = dbs"
          "w1 = say Debug ''Database is already up to date'' None w"
      | (wrote) "\<not> current P d w g" "y = None" "dbs1 = dbs @ [g]"
          "created w1 = created w @ [dest P d g]"
      by auto
    then show ?thesis
    proof cases
      case err
      have res: "x = Some (Walking (header_name g) e)" "dbs' = dbs" "w' = w1"
        using Cons.prems(2) step err by simp_all
      have a: "\<exists>new. dbs' = dbs @ new \<and> prefix new (filter (pending P d w) (g # es)) \<and>
        (x = None \<longrightarrow> new = filter (pending P d w) (g # es)) \<and>
        (\<exists>rest. created w' = created w @ map (dest P d) new @ rest \<and> (x = None \<longrightarrow> rest = []))"
        using res err(3) by (intro exI [of _ "[]"]) auto
      have b: "\<forall>f \<in> set (g # es). relevant f \<longrightarrow> current P d w f \<longrightarrow>
                 fs w' (dest P d f) = fs w (dest P d f)"
        using res fr1 gcur by auto
      from a b show ?thesis by blast
    next
      case same
      have r: "walk P d es (dbs, w1) = (x, dbs', w')"
        using Cons.prems(2) step same by simp
      note ih = Cons.IH [OF dis r, unfolded pe]
      have f: "filter (pending P d w) (g # es) = filter (pending P d w) es"
        using same(1) by (simp add: pending_def)
      have c1: "created w1 = created w" "fs w1 = fs w"
        using same(4) by (simp_all add: say_def)
      have g': "fs w' (dest P d g) = fs w (dest P d g)"
        using walk_frame [OF r] notin c1 by auto
      have b: "\<forall>f \<in> set (g # es). relevant f \<longrightarrow> current P d w f \<longrightarrow>
                 fs w' (dest P d f) = fs w (dest P d f)"
        using ih cu fr1 g' by auto
      from ih obtain new rest where n: "dbs' = dbs @ new" "prefix new (filter (pending P d w) es)"
        "x = None \<longrightarrow> new = filter (pending P d w) es"
        "created w' = created w1 @ map (dest P d) new @ rest" "x = None \<longrightarrow> rest = []"
        by blast
      have a: "\<exists>new. dbs' = dbs @ new \<and> prefix new (filter (pending P d w) (g # es)) \<and>
        (x = None \<longrightarrow> new = filter (pending P d w) (g # es)) \<and>
        (\<exists>rest. created w' = created w @ map (dest P d) new @ rest \<and> (x = None \<longrightarrow> rest = []))"
        using n f c1 by (intro exI [of _ new]) auto
      from a b show ?thesis by blast
    next
      case wrote
      have r: "walk P d es (dbs @ [g], w1) = (x, dbs', w')"
        using Cons.prems(2) step wrote by simp
      note ih = Cons.IH [OF dis r, unfolded pe]
      have f: "filter (pending P d w) (g # es) = g # filter (pending P d w) es"
        using wrote(1) True by (simp add: pending_def)
      have b: "\<forall>f \<in> set (g # es). relevant f \<longrightarrow> current P d w f \<longrightarrow>
                 fs w' (dest P d f) = fs w (dest P d f)"
        using ih cu fr1 wrote(1) by auto
      from ih obtain new rest where n: "dbs' = (dbs @ [g]) @ new"
        "prefix new (filter (pending P d w) es)"
        "x = None \<longrightarrow> new = filter (pending P d w) es"
        "created w' = created w1 @ map (dest P d) new @ rest" "x = None \<longrightarrow> rest = []"
        by blast
      have a: "\<exists>new. dbs' = dbs @ new \<and> prefix new (filter (pending P d w) (g # es)) \<and>
        (x = None \<longrightarrow> new = filter (pending P d w) (g # es)) \<and>
        (\<exists>rest. created w' = created w @ map (dest P d) new @ rest \<and> (x = None \<longrightarrow> rest = []))"
        using n f wrote(4) by (intro exI [of _ "g # new"]) auto
      from a b show ?thesis by blast
    qed
  qed
qed

lemma walkFn_fresh:
  assumes "relevant f" and "data_err f = None" and "fs u (dest P d f) = None"
    and "create_err P (dest P d f) = None" and "write_err P (dest P d f) = None"
  shows "fst (walkFn P d f (dbs, u)) = None"
  using assms
  by (auto simp: walkFn_def relevant_def checksumFromReader_def fileExists_def dest_def Let_def
        extractDb_def os_Create_def io_Copy_def os_Chtimes_def say_def
      split: option.splits)

lemma walk_fresh:
  "distinct (map (dest P d) (filter relevant es)) \<Longrightarrow>
   \<forall>f \<in> set (filter relevant es). data_err f = None \<and> fs w (dest P d f) = None \<and>
      create_err P (dest P d f) = None \<and> write_err P (dest P d f) = None \<Longrightarrow>
   fst (walk P d es (dbs, w)) = None"
proof (induction es arbitrary: dbs w)
  case Nil
  then show ?case by simp
next
  case (Cons g es)
  have dis: "distinct (map (dest P d) (filter relevant es))"
    using Cons.prems(1) by (auto split: if_splits)
  obtain y dbs1 w1 where step: "walkFn P d g (dbs, w) = (y, dbs1, w1)"
    by (cases "walkFn P d g (dbs, w)") auto
  show ?case
  proof (cases "relevant g")
    case False
    have "walkFn P d g (dbs, w) = (None, dbs, w)"
      using walkFn_irrelevant [OF False, of P d "(dbs, w)"] by simp
    moreover have "fst (walk P d es (dbs, w)) = None"
      using Cons.IH [OF dis, where w=w and dbs=dbs] Cons.prems(2) False by simp
    ultimately show ?thesis by simp
  next
    case True
    have y: "y = None"
      using walkFn_fresh [where f=g and P=P and u=w and d=d and dbs=dbs] True Cons.prems(2) step by simp
    have notin: "dest P d g \<notin> set (map (dest P d) (filter relevant es))"
      using Cons.prems(1) True by simp
    have fr: "\<forall>f \<in> set (filter relevant es). fs w1 (dest P d f) = fs w (dest P d f)"
    proof
      fix f assume f: "f \<in> set (filter relevant es)"
      then have "dest P d f \<in> set (map (dest P d) (filter relevant es))" by simp
      with notin have "dest P d f \<noteq> dest P d g" by metis
      with walkFn_frame [OF step] show "fs w1 (dest P d f) = fs w (dest P d f)" by blast
    qed
    have pre: "\<forall>f \<in> set (filter relevant es). data_err f = None \<and> fs w1 (dest P d f) = None \<and>
      create_err P (dest P d f) = None \<and> write_err P (dest P d f) = None"
      using Cons.prems(2) fr by auto
    have "fst (walk P d es (dbs1, w1)) = None"
      by (rule Cons.IH [OF dis pre])
    with step y show ?thesis by simp
  qed
qed

lemma pending_fresh:
  "\<forall>f \<in> set (filter relevant es). fs w (dest P d f) = None \<Longrightarrow>
   filter (pending P d w) es = filter relevant es"
  by (rule filter_cong) (auto simp: pending_def current_def)

lemma extractArchive_pending:
  assumes ar: "fs w archive = Some bs"
    and en: "walk_entries P archive bs = (es, damaged)"
    and di: "distinct (map (dest P d) (filter relevant es))"
  shows "prefix (fst (fst (extractArchive P d archive w))) (filter (pending P d w) es) \<and>
         (snd (fst (extractArchive P d archive w)) = None \<longrightarrow>
            fst (fst (extractArchive P d archive w)) = filter (pending P d w) es) \<and>
         (\<forall>f \<in> set es. relevant f \<longrightarrow> current P d w f \<longrightarrow>
            fs (snd (extractArchive P d archive w)) (dest P d f) = fs w (dest P d f))"
proof (cases "read_err P archive")
  case (Some e)
  with ar show ?thesis by (simp add: extractArchive_def)
next
  case None
  obtain x dbs' w' where r: "walk P d es ([], w) = (x, dbs', w')"
    by (cases "walk P d es ([], w)") auto
  have X: "extractArchive P d archive w =
      ((dbs', (case x of Some e \<Rightarrow> Some e | None \<Rightarrow> damaged)), w')"
    using extractArchive_walk [OF ar None en, of d] r by simp
  from walk_pending [OF di r] show ?thesis
    by (auto simp: X split: option.splits)
qed

lemma walkFn_created:
  "walkFn P d g (dbs, w) = (y, dbs1, w1) \<Longrightarrow>
     (y = None \<and> dbs1 = dbs \<and> created w1 = created w) \<or>
     (y = None \<and> dbs1 = dbs @ [g] \<and> created w1 = created w @ [dest P d g]) \<or>
     (y \<noteq> None \<and> dbs1 = dbs \<and>
        (created w1 = created w \<or> created w1 = created w @ [dest P d g]))"
proof (cases "relevant g")
  case False
  assume "walkFn P d g (dbs, w) = (y, dbs1, w1)"
  with walkFn_irrelevant [OF False, of P d "(dbs, w)"] show ?thesis by simp
next
  case True
  assume "walkFn P d g (dbs, w) = (y, dbs1, w1)"
  with walkFn_cases [OF True, of P d dbs w] show ?thesis
    by (auto simp: say_def)
qed

lemma walk_created:
  "walk P d es (dbs, w) = (x, dbs', w') \<Longrightarrow>
     \<exists>new rest. dbs' = dbs @ new \<and> created w' = created w @ map (dest P d) new @ rest \<and>
        (x = None \<longrightarrow> rest = [])"
proof (induction es arbitrary: dbs w)
  case Nil
  then show ?case by simp
next
  case (Cons g es)
  obtain y dbs1 w1 where step: "walkFn P d g (dbs, w) = (y, dbs1, w1)"
    by (cases "walkFn P d g (dbs, w)") auto
  show ?case
  proof (cases y)
    case (Some e)
    then have res: "x = Some (Walking (header_name g) e)" "dbs' = dbs1" "w' = w1"
      using Cons.prems step by simp_all
    from walkFn_created [OF step] Some
    have k: "dbs1 = dbs" and c: "created w1 = created w \<or> created w1 = created w @ [dest P d g]"
      by auto
    from c show ?thesis
    proof
      assume "created w1 = created w"
      with res k show ?thesis
        by (intro exI [of _ "[]"]) simp
    next
      assume "created w1 = created w @ [dest P d g]"
      with res k show ?thesis
        by (intro exI [of _ "[]"] exI [of _ "[dest P d g]"]) simp
    qed
  next
    case None
    then have r: "walk P d es (dbs1, w1) = (x, dbs', w')"
      using Cons.prems step by simp
    from Cons.IH [OF r] obtain new rest where
      n: "dbs' = dbs1 @ new" "created w' = created w1 @ map (dest P d) new @ rest"
         "x = None \<longrightarrow> rest = []"
      by blast
    from walkFn_created [OF step] None
    consider "dbs1 = dbs" "created w1 = created w"
      | "dbs1 = dbs @ [g]" "created w1 = created w @ [dest P d g]"
      by auto
    then show ?thesis
    proof cases
      case 1
      with n show ?thesis by (intro exI [of _ new] exI [of _ rest]) simp
    next
      case 2
      with n show ?thesis by (intro exI [of _ "g # new"] exI [of _ rest]) simp
    qed
  qed
qed

lemma extractArchive_created:
  assumes ar: "fs w archive = Some bs"
    and en: "walk_entries P archive bs = (es, damaged)"
  shows "\<exists>rest. created (snd (extractArchive P d archive w)) =
           created w @ map (dest P d) (fst (fst (extractArchive P d archive w))) @ rest \<and>
           (snd (fst (extractArchive P d archive w)) = None \<longrightarrow> rest = [])"
proof (cases "read_err P archive")
  case (Some e)
  with ar show ?thesis by (simp add: extractArchive_def)
next
  case None
  obtain x dbs' w' where r: "walk P d es ([], w) = (x, dbs', w')"
    by (cases "walk P d es ([], w)") auto
  have X: "extractArchive P d archive w =
      ((dbs', (case x of Some e \<Rightarrow> Some e | None \<Rightarrow> damaged)), w')"
    using extractArchive_walk [OF ar None en, of d] r by simp
  from walk_created [OF r] show ?thesis
    by (auto simp: X split: option.splits)
qed

lemma extractArchive_fresh:
  assumes ar: "fs w archive = Some bs"
    and en: "walk_entries P archive bs = (es, damaged)"
    and rd: "read_err P archive = None"
    and di: "distinct (map (dest P d) (filter relevant es))"
    and fr: "\<forall>f \<in> set (filter relevant es). data_err f = None \<and> fs w (dest P d f) = None \<and>
      create_err P (dest P d f) = None \<and> write_err P (dest P d f) = None"
  shows "fst (extractArchive P d archive w) = (filter relevant es, damaged)"
proof -
  obtain x dbs' w' where r: "walk P d es ([], w) = (x, dbs', w')"
    by (cases "walk P d es ([], w)") auto
  have x: "x = None"
    using walk_fresh [OF di fr, of "[]"] r by simp
  have X: "extractArchive P d archive w = ((dbs', damaged), w')"
    using extractArchive_walk [OF ar rd en, of d] r x by simp
  have p: "filter (pending P d w) es = filter relevant es"
    using fr by (intro pending_fresh) simp
  from walk_pending [OF di r] x p have "dbs' = filter relevant es" by auto
  with X show ?thesis by simp
qed

subsection \<open>Which entries the extraction looks at\<close>

text \<open>
  Claim C5. For the entries \<open>es\<close> the archive library finds in the archive: the callback
  returns at once, without error and without any effect, on every entry that is a
  directory or has an extension other than \<^verbatim>\<open>.csv\<close> and \<^verbatim>\<open>.mmdb\<close>; the walk over all
  entries is the walk over the relevant ones alone (same error or none, same list, same
  files); the list \<open>extractArchive\<close> returns is a subsequence of the relevant entries in
  walk order, so no other entry is in it and the order is that of the archive. In the
  other direction, the callback never passes over a relevant entry: on each it returns
  an error, or finds it current and logs so, or writes its bytes to the destination and
  appends it. And when the archive can be read, the destinations are pairwise distinct,
  none of them exists yet and no read, create or write on them fails, the list returned
  is exactly the list of the relevant entries, in walk order.
\<close>

theorem extraction_filter:
  assumes "fs w archive = Some bs"
    and "walk_entries P archive bs = (es, damaged)"
  shows "(\<forall>f \<in> set es. \<not> relevant f \<longrightarrow> (\<forall>s. walkFn P d f s = (None, s))) \<and>
         walk P d es ([], w) = walk P d (filter relevant es) ([], w) \<and>
         subseq (fst (fst (extractArchive P d archive w))) (filter relevant es) \<and>
         (\<forall>f dbs u. relevant f \<longrightarrow> walkFn P d f (dbs, u) \<noteq> (None, dbs, u)) \<and>
         (\<forall>f dbs u. relevant f \<longrightarrow>
            (\<exists>e. fst (walkFn P d f (dbs, u)) = Some e \<and>
                 fst (snd (walkFn P d f (dbs, u))) = dbs) \<or>
            walkFn P d f (dbs, u) =
              (None, dbs, say Debug ''Database is already up to date'' None u) \<or>
            (fst (walkFn P d f (dbs, u)) = None \<and>
             fst (snd (walkFn P d f (dbs, u))) = dbs @ [f] \<and>
             fs (snd (snd (walkFn P d f (dbs, u)))) (dest P d f) = Some (data f) \<and>
             created (snd (snd (walkFn P d f (dbs, u)))) = created u @ [dest P d f])) \<and>
         (read_err P archive = None \<longrightarrow>
          distinct (map (dest P d) (filter relevant es)) \<longrightarrow>
          (\<forall>f \<in> set (filter relevant es). data_err f = None \<and> fs w (dest P d f) = None \<and>
              create_err P (dest P d f) = None \<and> write_err P (dest P d f) = None) \<longrightarrow>
          fst (extractArchive P d archive w) = (filter relevant es, damaged))"
proof -
  have a: "\<forall>f \<in> set es. \<not> relevant f \<longrightarrow> (\<forall>s. walkFn P d f s = (None, s))"
    by (simp add: walkFn_irrelevant)
  have b: "walk P d es ([], w) = walk P d (filter relevant es) ([], w)"
    by (rule walk_filter)
  obtain x dbs' w' where r: "walk P d es ([], w) = (x, dbs', w')"
    by (cases "walk P d es ([], w)") auto
  from walk_result [OF r] have s: "subseq dbs' (filter relevant es)" by simp
  have c: "subseq (fst (fst (extractArchive P d archive w))) (filter relevant es)"
    using assms r s by (auto simp: extractArchive_def split: option.splits)
  have e: "\<forall>f dbs u. relevant f \<longrightarrow> walkFn P d f (dbs, u) \<noteq> (None, dbs, u)"
    by (simp add: walkFn_acts)
  have f: "\<forall>f dbs u. relevant f \<longrightarrow>
            (\<exists>e. fst (walkFn P d f (dbs, u)) = Some e \<and>
                 fst (snd (walkFn P d f (dbs, u))) = dbs) \<or>
            walkFn P d f (dbs, u) =
              (None, dbs, say Debug ''Database is already up to date'' None u) \<or>
            (fst (walkFn P d f (dbs, u)) = None \<and>
             fst (snd (walkFn P d f (dbs, u))) = dbs @ [f] \<and>
             fs (snd (snd (walkFn P d f (dbs, u)))) (dest P d f) = Some (data f) \<and>
             created (snd (snd (walkFn P d f (dbs, u)))) = created u @ [dest P d f])"
  proof (intro allI impI)
    fix f dbs u assume "relevant f"
    from walkFn_cases [OF this, of P d dbs u]
    show "(\<exists>e. fst (walkFn P d f (dbs, u)) = Some e \<and>
                 fst (snd (walkFn P d f (dbs, u))) = dbs) \<or>
            walkFn P d f (dbs, u) =
              (None, dbs, say Debug ''Database is already up to date'' None u) \<or>
            (fst (walkFn P d f (dbs, u)) = None \<and>
             fst (snd (walkFn P d f (dbs, u))) = dbs @ [f] \<and>
             fs (snd (snd (walkFn P d f (dbs, u)))) (dest P d f) = Some (data f) \<and>
             created (snd (snd (walkFn P d f (dbs, u)))) = created u @ [dest P d f])"
      by blast
  qed
  have g: "read_err P archive = None \<longrightarrow>
          distinct (map (dest P d) (filter relevant es)) \<longrightarrow>
          (\<forall>f \<in> set (filter relevant es). data_err f = None \<and> fs w (dest P d f) = None \<and>
              create_err P (dest P d f) = None \<and> write_err P (dest P d f) = None) \<longrightarrow>
          fst (extractArchive P d archive w) = (filter relevant es, damaged)"
    using extractArchive_fresh [OF assms] by blast
  from a b c e f g show ?thesis by blast
qed

theorem extraction_filter_witness:
  "fs w_arch ''/w/E.tgz'' = Some ''abc'' \<and>
   walk_entries P0 ''/w/E.tgz'' ''abc'' = ([e_csv, e_txt, e_dir, e_mmdb], None) \<and>
   filter relevant [e_csv, e_txt, e_dir, e_mmdb] = [e_csv, e_mmdb] \<and>
   walkFn P0 d0 e_txt ([], w_arch) = (None, [], w_arch) \<and>
   walkFn P0 d0 e_dir ([], w_arch) = (None, [], w_arch) \<and>
   walkFn P0 d0 e_csv ([], w_arch) \<noteq> (None, [], w_arch) \<and>
   walkFn P0 d0 e_mmdb ([], w_arch) \<noteq> (None, [], w_arch) \<and>
   walk P0 d0 [e_csv, e_txt, e_dir, e_mmdb] ([], w_arch) = walk P0 d0 [e_csv, e_mmdb] ([], w_arch) \<and>
   distinct (map (dest P0 d0) [e_csv, e_mmdb]) \<and>
   fs w_arch (dest P0 d0 e_csv) = None \<and> fs w_arch (dest P0 d0 e_mmdb) = None \<and>
   fst (extractArchive P0 d0 ''/w/E.tgz'' w_arch) = ([e_csv, e_mmdb], None)"
proof -
  have h1: "fs w_arch ''/w/E.tgz'' = Some ''abc''"
    by (simp add: w_arch_def files_def)
  have h2: "walk_entries P0 ''/w/E.tgz'' ''abc'' = ([e_csv, e_txt, e_dir, e_mmdb], None)"
    by (simp add: P0_def toy_entries_def)
  have r: "filter relevant [e_csv, e_txt, e_dir, e_mmdb] = [e_csv, e_mmdb]"
    by (simp add: relevant_def Ext_def scen)
  have t: "e_txt \<in> set [e_csv, e_txt, e_dir, e_mmdb]" "\<not> relevant e_txt"
    "e_dir \<in> set [e_csv, e_txt, e_dir, e_mmdb]" "\<not> relevant e_dir"
    "relevant e_csv" "relevant e_mmdb"
    by (simp_all add: relevant_def Ext_def scen)
  have n: "read_err P0 ''/w/E.tgz'' = None"
    by (simp add: P0_def)
  have di: "distinct (map (dest P0 d0) [e_csv, e_mmdb])"
    by (simp add: dest_def scen)
  have fr: "fs w_arch (dest P0 d0 e_csv) = None" "fs w_arch (dest P0 d0 e_mmdb) = None"
    "data_err e_csv = None" "data_err e_mmdb = None"
    "create_err P0 (dest P0 d0 e_csv) = None" "create_err P0 (dest P0 d0 e_mmdb) = None"
    "write_err P0 (dest P0 d0 e_csv) = None" "write_err P0 (dest P0 d0 e_mmdb) = None"
    by (simp_all add: dest_def w_arch_def scen)
  from extraction_filter [OF h1 h2, of d0] t h1 h2 r n di fr show ?thesis
    by simp
qed

subsection \<open>Entries that are already current\<close>

text \<open>
  Claim C2 as stated fails: the entry \<^verbatim>\<open>a.csv\<close> is relevant, its destination holds bytes
  with the entry's digest, and after the extraction the destination still holds them,
  but the list returned by \<open>extractArchive\<close>, and by \<open>Download\<close>, is \<open>[e_mmdb]\<close>: the
  current entry is not in it. And when a second entry of the archive has the same
  destination, the bytes do not stay either: the destination of \<^verbatim>\<open>a.csv\<close> is current when
  the extraction starts and holds the bytes of the other entry when it ends.
\<close>

theorem current_entry_counterexample:
  "relevant e_csv \<and>
   fs w_cur (dest P0 d0 e_csv) = Some (data e_csv) \<and>
   checksumFromFile P0 w_cur (dest P0 d0 e_csv) = Inr (md5sum P0 (data e_csv)) \<and>
   fst (extractArchive P0 d0 ''/w/E.tgz'' w_cur) = ([e_mmdb], None) \<and>
   fs (snd (extractArchive P0 d0 ''/w/E.tgz'' w_cur)) (dest P0 d0 e_csv) = Some (data e_csv) \<and>
   e_csv \<notin> set (fst (fst (extractArchive P0 d0 ''/w/E.tgz'' w_cur))) \<and>
   fst (Download P0 d0 w_cur) = Inr [e_mmdb] \<and>
   checksumFromFile P_dup w_cur (dest P_dup d0 e_csv) = Inr (md5sum P_dup (data e_csv)) \<and>
   fst (extractArchive P_dup d0 ''/w/E.tgz'' w_cur) = ([e_dup], None) \<and>
   fs (snd (extractArchive P_dup d0 ''/w/E.tgz'' w_cur)) (dest P_dup d0 e_csv) = Some ''zz''"
proof -
  have x: "extractArchive P0 d0 ''/w/E.tgz'' w_cur =
    (([e_mmdb], None), w_cur\<lparr>fs := (fs w_cur)(''/d/d.mmdb'' \<mapsto> ''pqr''),
       mtimes := (mtimes w_cur)(''/d/d.mmdb'' \<mapsto> 10),
       created := [''/d/d.mmdb''],
       logged := [Log Debug ''Database is already up to date'' None,
                  Log Debug ''Extracting database'' None]\<rparr>)"
    by (simp add: run w_cur_def scen)
  have y: "fst (Download P0 d0 w_cur) = Inr [e_mmdb]"
    by (simp add: pipeline run w_cur_def scen)
  have z: "checksumFromFile P_dup w_cur (dest P_dup d0 e_csv) = Inr (md5sum P_dup (data e_csv))"
    "fst (extractArchive P_dup d0 ''/w/E.tgz'' w_cur) = ([e_dup], None)"
    "fs (snd (extractArchive P_dup d0 ''/w/E.tgz'' w_cur)) (dest P_dup d0 e_csv) = Some ''zz''"
    by (simp_all add: run dest_def P_dup_def e_dup_def w_cur_def scen)
  show ?thesis
    by (simp add: x y z) (simp add: relevant_def dest_def checksumFromFile_def Ext_def w_cur_def scen)
qed

text \<open>
  Claim C2, amended. For the entries \<open>es\<close> of the archive and the world \<open>w\<close> in which the
  extraction starts:
  \<^item> whenever the callback reaches a relevant entry whose bytes can be read and whose
    destination then exists with the digest of the entry, it returns no error, writes
    one debug line, opens no file for writing, leaves every file and modification time
    as it was, and does not append the entry (line 226 returns before line 246);
  \<^item> the destinations of the entries in the list \<open>extractArchive\<close> returns are files the
    extraction has opened for writing, in that order, and when the extraction succeeds
    they are all the files it has opened;
  \<^item> when the relevant entries have pairwise distinct destinations, the list returned
    holds pending entries only, and when the extraction succeeds it is exactly the list
    of the entries pending in \<open>w\<close>, in walk order; an entry that is current in \<open>w\<close> is not
    in the list and its destination holds the same bytes after the extraction;
  \<^item> what \<open>Download\<close> returns on success is the list \<open>extractArchive\<close> returns, from the
    world the marker step left.
\<close>

theorem current_entry_skipped:
  assumes "fs w archive = Some bs"
    and "walk_entries P archive bs = (es, damaged)"
  shows "(\<forall>g dbs u. relevant g \<longrightarrow> data_err g = None \<longrightarrow> fileExists u (dest P d g) \<longrightarrow>
            checksumFromFile P u (dest P d g) = Inr (md5sum P (data g)) \<longrightarrow>
            walkFn P d g (dbs, u) =
              (None, dbs, say Debug ''Database is already up to date'' None u) \<and>
            fs (say Debug ''Database is already up to date'' None u) = fs u \<and>
            mtimes (say Debug ''Database is already up to date'' None u) = mtimes u \<and>
            created (say Debug ''Database is already up to date'' None u) = created u) \<and>
         (\<exists>rest. created (snd (extractArchive P d archive w)) =
            created w @ map (dest P d) (fst (fst (extractArchive P d archive w))) @ rest \<and>
            (snd (fst (extractArchive P d archive w)) = None \<longrightarrow> rest = [])) \<and>
         (distinct (map (dest P d) (filter relevant es)) \<longrightarrow>
            prefix (fst (fst (extractArchive P d archive w))) (filter (pending P d w) es) \<and>
            (snd (fst (extractArchive P d archive w)) = None \<longrightarrow>
               fst (fst (extractArchive P d archive w)) = filter (pending P d w) es) \<and>
            (\<forall>f \<in> set es. relevant f \<longrightarrow> current P d w f \<longrightarrow>
               f \<notin> set (fst (fst (extractArchive P d archive w))) \<and>
               fs (snd (extractArchive P d archive w)) (dest P d f) = fs w (dest P d f))) \<and>
         (\<forall>w0 h w1 w2. expectedHash P d w0 = (Inr h, w1) \<longrightarrow>
            downloadArchive P d h archive w1 = (None, w2) \<longrightarrow>
            createFile P (md5file P d) h w2 = (None, w) \<longrightarrow>
            archive = archive_path P d \<longrightarrow>
            Download P d w0 =
              ((case snd (fst (extractArchive P d archive w)) of
                  Some e \<Rightarrow> Inl e
                | None \<Rightarrow> Inr (fst (fst (extractArchive P d archive w)))),
               snd (extractArchive P d archive w)))"
proof -
  let ?X = "extractArchive P d archive w"
  have a: "\<forall>g dbs u. relevant g \<longrightarrow> data_err g = None \<longrightarrow> fileExists u (dest P d g) \<longrightarrow>
            checksumFromFile P u (dest P d g) = Inr (md5sum P (data g)) \<longrightarrow>
            walkFn P d g (dbs, u) =
              (None, dbs, say Debug ''Database is already up to date'' None u) \<and>
            fs (say Debug ''Database is already up to date'' None u) = fs u \<and>
            mtimes (say Debug ''Database is already up to date'' None u) = mtimes u \<and>
            created (say Debug ''Database is already up to date'' None u) = created u"
    by (auto simp: walkFn_def relevant_def dest_def checksumFromReader_def say_def)
  have b: "\<exists>rest. created (snd ?X) = created w @ map (dest P d) (fst (fst ?X)) @ rest \<and>
            (snd (fst ?X) = None \<longrightarrow> rest = [])"
    by (rule extractArchive_created [OF assms])
  have c: "distinct (map (dest P d) (filter relevant es)) \<longrightarrow>
            prefix (fst (fst ?X)) (filter (pending P d w) es) \<and>
            (snd (fst ?X) = None \<longrightarrow> fst (fst ?X) = filter (pending P d w) es) \<and>
            (\<forall>f \<in> set es. relevant f \<longrightarrow> current P d w f \<longrightarrow>
               f \<notin> set (fst (fst ?X)) \<and> fs (snd ?X) (dest P d f) = fs w (dest P d f))"
  proof
    assume di: "distinct (map (dest P d) (filter relevant es))"
    note p = extractArchive_pending [OF assms di]
    have "f \<notin> set (fst (fst ?X))" if "current P d w f" for f
    proof
      assume "f \<in> set (fst (fst ?X))"
      with p have "f \<in> set (filter (pending P d w) es)"
        using set_mono_prefix by blast
      with that show False by (simp add: pending_def)
    qed
    with p show "prefix (fst (fst ?X)) (filter (pending P d w) es) \<and>
            (snd (fst ?X) = None \<longrightarrow> fst (fst ?X) = filter (pending P d w) es) \<and>
            (\<forall>f \<in> set es. relevant f \<longrightarrow> current P d w f \<longrightarrow>
               f \<notin> set (fst (fst ?X)) \<and> fs (snd ?X) (dest P d f) = fs w (dest P d f))"
      by blast
  qed
  have e: "\<forall>w0 h w1 w2. expectedHash P d w0 = (Inr h, w1) \<longrightarrow>
            downloadArchive P d h archive w1 = (None, w2) \<longrightarrow>
            createFile P (md5file P d) h w2 = (None, w) \<longrightarrow>
            archive = archive_path P d \<longrightarrow>
            Download P d w0 =
              ((case snd (fst ?X) of Some e \<Rightarrow> Inl e | None \<Rightarrow> Inr (fst (fst ?X))), snd ?X)"
    using Download_extract by blast
  from a b c e show ?thesis by blast
qed

theorem current_entry_skipped_witness:
  "relevant e_csv \<and> current P0 d0 w_cur e_csv \<and>
   distinct (map (dest P0 d0) (filter relevant [e_csv, e_txt, e_dir, e_mmdb])) \<and>
   walkFn P0 d0 e_csv ([], w_cur) =
     (None, [], say Debug ''Database is already up to date'' None w_cur) \<and>
   fst (Download P0 d0 w_cur) = Inr [e_mmdb] \<and>
   e_csv \<notin> set [e_mmdb] \<and>
   fs (snd (Download P0 d0 w_cur)) (dest P0 d0 e_csv) = Some ''xy'' \<and>
   created (snd (Download P0 d0 w_cur)) = [md5file P0 d0, dest P0 d0 e_mmdb]"
proof -
  let ?a = "''/w/E.tgz''"
  let ?es = "[e_csv, e_txt, e_dir, e_mmdb]"
  let ?w1 = "w_cur\<lparr>http_log := [md5_request d0]\<rparr>"
  let ?w2 = "say Debug ''Archive already downloaded and valid. Skipping download'' None ?w1"
  let ?w3 = "?w2\<lparr>fs := (fs ?w2)(md5file P0 d0 \<mapsto> ''cba''), created := created ?w2 @ [md5file P0 d0]\<rparr>"
  let ?X = "extractArchive P0 d0 ?a ?w3"
  have h1: "fs ?w3 ?a = Some ''abc''"
    by (simp add: say_def w_cur_def scen)
  have h2: "walk_entries P0 ?a ''abc'' = (?es, None)"
    by (simp add: P0_def toy_entries_def)
  note T = current_entry_skipped [OF h1 h2, of d0]
  have rel: "relevant e_csv" "filter relevant ?es = [e_csv, e_mmdb]"
    by (simp_all add: relevant_def Ext_def scen)
  have di: "distinct (map (dest P0 d0) (filter relevant ?es))"
    by (simp add: rel dest_def scen)
  have cur: "current P0 d0 ?w3 e_csv" "current P0 d0 w_cur e_csv"
    by (simp_all add: current_def dest_def say_def w_cur_def scen)
  have pend: "filter (pending P0 d0 ?w3) ?es = [e_mmdb]"
    by (simp add: pending_def current_def relevant_def dest_def say_def Ext_def w_cur_def scen)
  have ok: "snd (fst ?X) = None"
    by (simp add: run w_cur_def scen)
  have c0: "fs ?w3 (dest P0 d0 e_csv) = Some ''xy''" "created ?w3 = [md5file P0 d0]"
    "dest P0 d0 e_csv \<noteq> dest P0 d0 e_mmdb"
    by (simp_all add: dest_def say_def w_cur_def scen)
  have per: "walkFn P0 d0 e_csv ([], w_cur) =
     (None, [], say Debug ''Database is already up to date'' None w_cur)"
  proof -
    have "data_err e_csv = None" "fileExists w_cur (dest P0 d0 e_csv)"
      "checksumFromFile P0 w_cur (dest P0 d0 e_csv) = Inr (md5sum P0 (data e_csv))"
      by (simp_all add: fileExists_def checksumFromFile_def dest_def w_cur_def scen)
    with T rel(1) show ?thesis by blast
  qed
  from T di have lst: "fst (fst ?X) = [e_mmdb]"
    and keep: "fs (snd ?X) (dest P0 d0 e_csv) = fs ?w3 (dest P0 d0 e_csv)"
    using ok pend rel(1) cur(1) by auto
  from T ok lst have cr: "created (snd ?X) = created ?w3 @ [dest P0 d0 e_mmdb]"
    by auto
  have e: "expectedHash P0 d0 w_cur = (Inr ''cba'', ?w1)"
    by (simp add: expectedHash_def Do_def w_cur_def scen)
  have dl: "downloadArchive P0 d0 ''cba'' ?a ?w1 = (None, ?w2)"
    by (simp add: downloadArchive_def stat_ok_def checksumFromFile_def w_cur_def scen)
  have cf: "createFile P0 (md5file P0 d0) ''cba'' ?w2 = (None, ?w3)"
    by (simp add: createFile_succeeds P0_def)
  have ap: "?a = archive_path P0 d0"
    by (simp add: scen)
  from T e dl cf ap have D: "Download P0 d0 w_cur =
      ((case snd (fst ?X) of Some e \<Rightarrow> Inl e | None \<Rightarrow> Inr (fst (fst ?X))), snd ?X)"
    by blast
  have D1: "fst (Download P0 d0 w_cur) = Inr [e_mmdb]" "snd (Download P0 d0 w_cur) = snd ?X"
    unfolding D by (simp_all add: ok lst)
  have ne: "e_csv \<notin> set [e_mmdb]"
    by (simp add: e_csv_def e_mmdb_def)
  show ?thesis
    using rel(1) cur(2) di per D1 ne keep cr c0 by (simp add: rel)
qed

end
